theory Spec2Isabelle
  imports Complex_Main "HOL-Library.Multiset"
begin

section \<open>Errors\<close>

text \<open>
  The driver throws \<^verbatim>\<open>std::invalid_argument\<close> and \<^verbatim>\<open>std::runtime_error\<close>, each
  with a message. An access outside a vector or tensor and a division by zero
  (undefined behaviour in C++) are the third value, so that each is a branch of the
  model and never an unspecified \<open>xs ! i\<close>.
\<close>

datatype error = Invalid_Argument string | Runtime_Error string | Undefined_Behaviour

definition sot_not_found_msg :: string where
  "sot_not_found_msg = ''<|startoftranscript|> token was not found in the prompt''"

definition sot_position_msg :: string where
  "sot_position_msg = ''The generate method currently requires the <|startoftranscript|> token to be at the same position in all batches. To work around this limitation, simply adapt the number of previous text tokens in each batch.''"

definition task_tokens_msg :: string where
  "task_tokens_msg = ''The generate method currently requires each batch to have the same number of task tokens after <|startoftranscript|>.''"

definition not_multilingual_msg :: string where
  "not_multilingual_msg = ''detect_language can only be called on multilingual models''"

section \<open>Prompt analysis\<close>

text \<open>
  Token ids and positions are \<^verbatim>\<open>size_t\<close>; a prompt is a \<^verbatim>\<open>std::vector<size_t>\<close>.
  \<^verbatim>\<open>get_sot_index\<close>: \<^verbatim>\<open>std::find\<close> returns the first position holding \<open>sot_id\<close>, or
  the end iterator, in which case the function throws.
\<close>

definition get_sot_index :: "nat list \<Rightarrow> nat \<Rightarrow> error + nat" where
  "get_sot_index prompt sot_id =
     (let sot_it = length (takeWhile (\<lambda>t. t \<noteq> sot_id) prompt)
      in if sot_it = length prompt then Inl (Invalid_Argument sot_not_found_msg)
         else Inr sot_it)"

text \<open>
  The \<^verbatim>\<open>while\<close> loop of \<^verbatim>\<open>get_prompt_length\<close>: the index advances while it is inside
  the prompt and the token there lies in \<open>[sot_id, no_timestamps_id]\<close>.
\<close>

function prompt_length_loop :: "nat list \<Rightarrow> nat \<Rightarrow> nat \<Rightarrow> nat \<Rightarrow> nat" where
  "prompt_length_loop prompt sot_id no_timestamps_id index =
     (if index < length prompt \<and> prompt ! index \<ge> sot_id \<and> prompt ! index \<le> no_timestamps_id
      then prompt_length_loop prompt sot_id no_timestamps_id (index + 1)
      else index)"
  by pat_completeness auto
termination
  by (relation "measure (\<lambda>(prompt, sot_id, no_timestamps_id, index). length prompt - index)") auto

declare prompt_length_loop.simps [simp del]

definition get_prompt_length :: "nat list \<Rightarrow> nat \<Rightarrow> nat \<Rightarrow> error + nat" where
  "get_prompt_length prompt sot_id no_timestamps_id =
     (case get_sot_index prompt sot_id of
        Inl e \<Rightarrow> Inl e
      | Inr index \<Rightarrow> Inr (prompt_length_loop prompt sot_id no_timestamps_id index))"

text \<open>
  \<^verbatim>\<open>check_prompts\<close> writes its two results through reference parameters; the model
  passes the pair along and returns it. The flag \<open>first\<close> is the loop's local.
\<close>

fun check_prompts_loop ::
  "nat list list \<Rightarrow> nat \<Rightarrow> nat \<Rightarrow> bool \<Rightarrow> nat \<times> nat \<Rightarrow> error + (nat \<times> nat)" where
  "check_prompts_loop [] sot_id no_timestamps_id first (sot_index, prompt_length) =
     Inr (sot_index, prompt_length)"
| "check_prompts_loop (prompt # rest) sot_id no_timestamps_id first (sot_index, prompt_length) =
     (case get_sot_index prompt sot_id of
        Inl e \<Rightarrow> Inl e
      | Inr batch_sot_index \<Rightarrow>
          (case get_prompt_length prompt sot_id no_timestamps_id of
             Inl e \<Rightarrow> Inl e
           | Inr batch_prompt_length \<Rightarrow>
               if first then
                 check_prompts_loop rest sot_id no_timestamps_id False
                   (batch_sot_index, batch_prompt_length)
               else if batch_sot_index \<noteq> sot_index then
                 Inl (Invalid_Argument sot_position_msg)
               else if batch_prompt_length \<noteq> prompt_length then
                 Inl (Invalid_Argument task_tokens_msg)
               else
                 check_prompts_loop rest sot_id no_timestamps_id False
                   (sot_index, prompt_length)))"

definition check_prompts ::
  "nat list list \<Rightarrow> nat \<Rightarrow> nat \<Rightarrow> nat \<times> nat \<Rightarrow> error + (nat \<times> nat)" where
  "check_prompts prompts sot_id no_timestamps_id init =
     check_prompts_loop prompts sot_id no_timestamps_id True init"

text \<open>
  The specification's words for the two derived indices of one prompt: the position
  of SOT, and the smallest index from there on whose token is outside
  \<open>[sot_id, no_timestamps_id]\<close>, or the prompt's length when there is none.
\<close>

definition is_sot_index :: "nat list \<Rightarrow> nat \<Rightarrow> nat \<Rightarrow> bool" where
  "is_sot_index prompt sot_id i \<longleftrightarrow>
     i < length prompt \<and> prompt ! i = sot_id \<and> (\<forall>j<i. prompt ! j \<noteq> sot_id)"

definition in_task_range :: "nat \<Rightarrow> nat \<Rightarrow> nat \<Rightarrow> bool" where
  "in_task_range sot_id no_timestamps_id t \<longleftrightarrow> sot_id \<le> t \<and> t \<le> no_timestamps_id"

definition is_prompt_length :: "nat list \<Rightarrow> nat \<Rightarrow> nat \<Rightarrow> nat \<Rightarrow> nat \<Rightarrow> bool" where
  "is_prompt_length prompt sot_id no_timestamps_id i n \<longleftrightarrow>
     i \<le> n \<and> n \<le> length prompt
     \<and> (\<forall>k. i \<le> k \<and> k < n \<longrightarrow> in_task_range sot_id no_timestamps_id (prompt ! k))
     \<and> (n < length prompt \<longrightarrow> \<not> in_task_range sot_id no_timestamps_id (prompt ! n))"

section \<open>Tensors and numeric kernels\<close>

text \<open>
  A two-dimensional \<^verbatim>\<open>StorageView\<close> is a list of rows. Floating-point values are
  reals: the numeric kernels below are collaborators outside this unit and enter as
  parameters, so nothing proved here depends on how they round.
  \<^verbatim>\<open>ops::SoftMax\<close> and \<^verbatim>\<open>ops::LogSoftMax\<close> work on the last axis of the whole tensor;
  \<^verbatim>\<open>primitives<D>::max\<close> and \<^verbatim>\<open>primitives<D>::logsumexp\<close> reduce a contiguous run of
  values; \<open>k_disable_value\<close> is the value that \<^verbatim>\<open>DisableTokens\<close> writes.
\<close>

record kernels =
  k_softmax :: "real list list \<Rightarrow> real list list"
  k_log_softmax :: "real list list \<Rightarrow> real list list"
  k_max :: "real list \<Rightarrow> real"
  k_logsumexp :: "real list \<Rightarrow> real"
  k_disable_value :: real

text \<open>
  \<^verbatim>\<open>size_t\<close> arithmetic wraps around at \<open>2 ^ 64\<close>: the difference and the sum of two
  values of the type, and the successor of one.
\<close>

definition size_t_sub :: "nat \<Rightarrow> nat \<Rightarrow> nat" where
  "size_t_sub a b = (if b \<le> a then a - b else a + 2 ^ 64 - b)"

definition size_t_add :: "nat \<Rightarrow> nat \<Rightarrow> nat" where
  "size_t_add a b = (a + b) mod 2 ^ 64"

definition size_t_inc :: "nat \<Rightarrow> nat" where
  "size_t_inc a = (a + 1) mod 2 ^ 64"

section \<open>No-speech probability\<close>

text \<open>
  \<^verbatim>\<open>get_no_speech_probs_from_logits\<close>: softmax of the logits, then
  \<^verbatim>\<open>Gather(axis=1, batch_dims=1)\<close> with the index \<open>no_speech_id\<close> in every row.
  A row too short for the index is an access outside the tensor.
\<close>

definition get_no_speech_probs_from_logits ::
  "kernels \<Rightarrow> real list list \<Rightarrow> nat \<Rightarrow> error + real list" where
  "get_no_speech_probs_from_logits k logits no_speech_id =
     (let probs = k_softmax k logits
      in if \<forall>row\<in>set probs. no_speech_id < length row
         then Inr (map (\<lambda>row. row ! no_speech_id) probs)
         else Inl Undefined_Behaviour)"

text \<open>
  What the decoding loop hands to a logits processor at one step. \<open>call_sequences\<close>
  holds, per row, the tokens generated so far; \<open>call_sample_begin\<close> is the value of
  \<^verbatim>\<open>get_sample_begin(batch_size, batch_id, batch_offset, prefix)\<close> for each row, a helper
  declared outside this unit whose result (a length, so never negative) is taken as
  given. Steps and positions are \<^verbatim>\<open>dim_t\<close>, a signed 64-bit integer.
\<close>

record processor_call =
  call_step :: int
  call_logits :: "real list list"
  call_sequences :: "nat list list"
  call_batch_offset :: "nat list"
  call_sample_begin :: "nat \<Rightarrow> nat"

text \<open>
  \<^verbatim>\<open>GetNoSpeechProbs\<close>: the processor's state is the vector \<^verbatim>\<open>_no_speech_probs\<close>. Its
  \<^verbatim>\<open>apply\<close> receives the logits by reference and ignores the disabled tokens; the
  model returns the logits as the call leaves them and the new vector.
  \<^verbatim>\<open>apply_first\<close> returns true.
\<close>

definition get_no_speech_probs_apply_first :: bool where
  "get_no_speech_probs_apply_first = True"

definition get_no_speech_probs_apply ::
  "kernels \<Rightarrow> nat \<Rightarrow> processor_call \<Rightarrow> real list \<Rightarrow> error + (real list list \<times> real list)" where
  "get_no_speech_probs_apply k no_speech_id call no_speech_probs_member =
     (if call_step call = 0 then
        (case get_no_speech_probs_from_logits k (call_logits call) no_speech_id of
           Inl e \<Rightarrow> Inl e
         | Inr no_speech_probs \<Rightarrow>
             let batch_size = length (call_batch_offset call)
             in if batch_size = 0 then Inl Undefined_Behaviour
                else
                  let beam_size = length (call_logits call) div batch_size
                  in if \<forall>i<batch_size. i * beam_size < length no_speech_probs
                     then Inr (call_logits call,
                               no_speech_probs_member
                               @ map (\<lambda>i. no_speech_probs ! (i * beam_size)) [0..<batch_size])
                     else Inl Undefined_Behaviour)
      else Inr (call_logits call, no_speech_probs_member))"

section \<open>Timestamp rules\<close>

record timestamp_rules =
  rules_eot_id :: nat
  rules_no_timestamps_id :: nat
  rules_timestamp_begin_id :: nat
  rules_timestamp_end_id :: nat
  rules_max_initial_timestamp_id :: nat

text \<open>
  Modelled from the spec: \<^verbatim>\<open>DisableTokens\<close> is declared outside this unit. The
  specification calls it the per-row accumulator of forbidden ids for a step, applied
  to the logits by setting those positions to the disable value. The accumulator is
  the list of (row, id) pairs in the order of the \<^verbatim>\<open>add\<close> calls, next to the logits it
  refers to; \<^verbatim>\<open>apply\<close> writes the disable value at every recorded position.
\<close>

record disable_tokens =
  dt_logits :: "real list list"
  dt_added :: "(nat \<times> nat) list"

definition disable_tokens_add :: "nat \<Rightarrow> nat \<Rightarrow> disable_tokens \<Rightarrow> disable_tokens" where
  "disable_tokens_add batch_id token_id dt = dt\<lparr>dt_added := dt_added dt @ [(batch_id, token_id)]\<rparr>"

definition mask_logits :: "real \<Rightarrow> (nat \<times> nat) list \<Rightarrow> real list list \<Rightarrow> real list list" where
  "mask_logits v added logits =
     map (\<lambda>b. map (\<lambda>i. if (b, i) \<in> set added then v else logits ! b ! i)
                [0..<length (logits ! b)])
         [0..<length logits]"

definition disable_tokens_apply :: "real \<Rightarrow> disable_tokens \<Rightarrow> disable_tokens" where
  "disable_tokens_apply v dt = dt\<lparr>dt_logits := mask_logits v (dt_added dt) (dt_logits dt)\<rparr>"

text \<open>
  The loops \<^verbatim>\<open>for (size_t i = lo; i < hi; ++i) disable_tokens.add(batch_id, i)\<close>, given
  the ids in the order visited.
\<close>

fun add_ids :: "nat \<Rightarrow> nat list \<Rightarrow> disable_tokens \<Rightarrow> disable_tokens" where
  "add_ids batch_id [] dt = dt"
| "add_ids batch_id (i # ids) dt = add_ids batch_id ids (disable_tokens_add batch_id i dt)"

text \<open>
  The monotonicity scan: \<^verbatim>\<open>for (dim_t t = step - 1; t >= sample_begin; --t)\<close>. The
  index \<open>t\<close> is a signed \<^verbatim>\<open>dim_t\<close> and leaves the loop below \<open>sample_begin\<close>. The result
  is the list of ids the scan disables.
\<close>

function monotonic_scan :: "timestamp_rules \<Rightarrow> nat list \<Rightarrow> nat \<Rightarrow> int \<Rightarrow> nat list" where
  "monotonic_scan r row sample_begin t =
     (if t \<ge> int sample_begin then
        (let token = row ! nat t
         in if token \<ge> rules_timestamp_begin_id r
            then [rules_timestamp_begin_id r..<token]
            else monotonic_scan r row sample_begin (t - 1))
      else [])"
  by pat_completeness auto
termination
  by (relation "measure (\<lambda>(r, row, sample_begin, t). nat (t + 1 - int sample_begin))") auto

declare monotonic_scan.simps [simp del]

text \<open>
  The body of the loop over \<open>batch_id\<close> in \<^verbatim>\<open>ApplyTimestampRules::apply\<close>. The state is
  the accumulator and the vector \<^verbatim>\<open>check_timestamps_prob_for_batch\<close>. At the first
  generated step the second loop starts at \<^verbatim>\<open>_max_initial_timestamp_id + 1\<close>, a \<^verbatim>\<open>size_t\<close>
  sum: it is 0 when the member holds the largest value of the type.
\<close>

definition apply_row ::
  "timestamp_rules \<Rightarrow> processor_call \<Rightarrow> nat \<Rightarrow> disable_tokens \<times> nat list
   \<Rightarrow> disable_tokens \<times> nat list" where
  "apply_row r call batch_id acc =
     (let step = call_step call;
          sample_begin = call_sample_begin call batch_id;
          row = call_sequences call ! batch_id;
          dt = disable_tokens_add batch_id (rules_no_timestamps_id r) (fst acc);
          check_timestamps_prob_for_batch = snd acc
      in if step = int sample_begin then
           (add_ids batch_id
              [size_t_inc (rules_max_initial_timestamp_id r)..<rules_timestamp_end_id r + 1]
              (add_ids batch_id [0..<rules_timestamp_begin_id r] dt),
            check_timestamps_prob_for_batch)
         else if step > int sample_begin then
           (let last_token = row ! nat (step - 1);
                pair =
                  (if last_token \<ge> rules_timestamp_begin_id r then
                     (let penultimate_token =
                            (if step - 1 > int sample_begin then row ! nat (step - 2)
                             else last_token)
                      in if penultimate_token \<ge> rules_timestamp_begin_id r then
                           (add_ids batch_id
                              [rules_timestamp_begin_id r..<rules_timestamp_end_id r + 1] dt,
                            check_timestamps_prob_for_batch)
                         else
                           (add_ids batch_id [0..<rules_eot_id r] dt,
                            check_timestamps_prob_for_batch @ [batch_id]))
                   else (dt, check_timestamps_prob_for_batch @ [batch_id]))
            in (add_ids batch_id (monotonic_scan r row sample_begin (step - 1)) (fst pair),
                snd pair))
         else (dt, check_timestamps_prob_for_batch))"

fun apply_rows ::
  "timestamp_rules \<Rightarrow> processor_call \<Rightarrow> nat list \<Rightarrow> disable_tokens \<times> nat list
   \<Rightarrow> disable_tokens \<times> nat list" where
  "apply_rows r call [] acc = acc"
| "apply_rows r call (batch_id # rest) acc = apply_rows r call rest (apply_row r call batch_id acc)"

text \<open>
  \<^verbatim>\<open>should_sample_timestamp\<close>: the text log-probabilities are the first
  \<open>timestamp_begin_id\<close> values of the row, the timestamp log-probabilities the
  \<open>timestamp_end_id - timestamp_begin_id + 1\<close> values after them.
\<close>

definition should_sample_timestamp ::
  "kernels \<Rightarrow> timestamp_rules \<Rightarrow> real list list \<Rightarrow> nat \<Rightarrow> bool" where
  "should_sample_timestamp k r log_probs batch_id =
     (let num_text_tokens = rules_timestamp_begin_id r;
          num_timestamp_tokens =
            size_t_inc (size_t_sub (rules_timestamp_end_id r) (rules_timestamp_begin_id r));
          text_log_probs = log_probs ! batch_id;
          timestamp_log_probs = drop num_text_tokens text_log_probs;
          max_text_token_log_prob = k_max k (take num_text_tokens text_log_probs);
          timestamp_log_prob = k_logsumexp k (take num_timestamp_tokens timestamp_log_probs)
      in timestamp_log_prob > max_text_token_log_prob)"

text \<open>
  The tensor's device and type choose the instance of \<^verbatim>\<open>should_sample_timestamp\<close>; in
  a build without CUDA only the CPU branch exists and the flag stays false elsewhere.
\<close>

datatype device = CPU | CUDA

datatype data_type = FLOAT32 | FLOAT16

record build =
  with_cuda :: bool
  tensor_device :: device
  tensor_dtype :: data_type

definition sample_timestamp_dispatch ::
  "build \<Rightarrow> kernels \<Rightarrow> timestamp_rules \<Rightarrow> real list list \<Rightarrow> nat \<Rightarrow> bool" where
  "sample_timestamp_dispatch b k r log_probs batch_id =
     (if tensor_device b = CPU then should_sample_timestamp k r log_probs batch_id
      else if with_cuda b then
        (if tensor_dtype b = FLOAT32 then should_sample_timestamp k r log_probs batch_id
         else should_sample_timestamp k r log_probs batch_id)
      else False)"

fun mass_check ::
  "build \<Rightarrow> kernels \<Rightarrow> timestamp_rules \<Rightarrow> real list list \<Rightarrow> nat list \<Rightarrow> disable_tokens
   \<Rightarrow> disable_tokens" where
  "mass_check b k r log_probs [] dt = dt"
| "mass_check b k r log_probs (batch_id # rest) dt =
     mass_check b k r log_probs rest
       (if sample_timestamp_dispatch b k r log_probs batch_id
        then add_ids batch_id [0..<rules_timestamp_begin_id r] dt
        else dt)"

text \<open>
  \<^verbatim>\<open>ApplyTimestampRules::apply\<close>. The logits and the accumulator that refers to them
  travel together; \<open>batch_size\<close> is the number of rows of the logits. The result holds
  the logits as the processor leaves them and every id added.
\<close>

definition first_pass ::
  "timestamp_rules \<Rightarrow> processor_call \<Rightarrow> disable_tokens \<Rightarrow> disable_tokens \<times> nat list" where
  "first_pass r call dt = apply_rows r call [0..<length (dt_logits dt)] (dt, [])"

definition apply_timestamp_rules ::
  "build \<Rightarrow> kernels \<Rightarrow> timestamp_rules \<Rightarrow> processor_call \<Rightarrow> disable_tokens \<Rightarrow> disable_tokens" where
  "apply_timestamp_rules b k r call dt =
     (let acc = first_pass r call dt;
          check_timestamps_prob_for_batch = snd acc
      in if check_timestamps_prob_for_batch \<noteq> [] then
           (let applied = disable_tokens_apply (k_disable_value k) (fst acc);
                log_probs = k_log_softmax k (dt_logits applied)
            in mass_check b k r log_probs check_timestamps_prob_for_batch applied)
         else fst acc)"

text \<open>
  What one pass of the loop body contributes for a row, read off \<open>apply_row\<close> run on
  an empty accumulator: the pairs it adds and the entry it pushes on
  \<^verbatim>\<open>check_timestamps_prob_for_batch\<close>. The ids disabled for a row are the second
  components of the pairs recorded for it.
\<close>

definition empty_disable_tokens :: disable_tokens where
  "empty_disable_tokens = \<lparr>dt_logits = [], dt_added = []\<rparr>"

definition row_adds :: "timestamp_rules \<Rightarrow> processor_call \<Rightarrow> nat \<Rightarrow> (nat \<times> nat) list" where
  "row_adds r call batch_id = dt_added (fst (apply_row r call batch_id (empty_disable_tokens, [])))"

definition row_check :: "timestamp_rules \<Rightarrow> processor_call \<Rightarrow> nat \<Rightarrow> nat list" where
  "row_check r call batch_id = snd (apply_row r call batch_id (empty_disable_tokens, []))"

definition disabled_ids :: "(nat \<times> nat) list \<Rightarrow> nat \<Rightarrow> nat set" where
  "disabled_ids added batch_id = {i. (batch_id, i) \<in> set added}"

section \<open>The replica, its options and its collaborators\<close>

text \<open>
  The members of \<^verbatim>\<open>WhisperReplica\<close> that the driver reads: the special token ids
  resolved by the constructor, the vocabulary (its size and \<^verbatim>\<open>to_token\<close>) and the three
  lists of the model's configuration.
\<close>

record whisper_replica =
  replica_sot_id :: nat
  replica_eot_id :: nat
  replica_no_timestamps_id :: nat
  replica_no_speech_id :: nat
  replica_is_multilingual :: bool
  replica_vocabulary_size :: nat
  replica_to_token :: "nat \<Rightarrow> string"
  replica_suppress_ids :: "nat list"
  replica_suppress_ids_begin :: "nat list"
  replica_lang_ids :: "nat list"

record whisper_options =
  opt_beam_size :: nat
  opt_patience :: real
  opt_length_penalty :: real
  opt_repetition_penalty :: real
  opt_no_repeat_ngram_size :: nat
  opt_max_length :: nat
  opt_sampling_topk :: nat
  opt_sampling_temperature :: real
  opt_num_hypotheses :: nat
  opt_return_scores :: bool
  opt_return_attention :: bool
  opt_return_no_speech_prob :: bool
  opt_max_initial_timestamp_index :: nat
  opt_suppress_blank :: bool
  opt_suppress_tokens :: "int list"

datatype logits_processor = GetNoSpeechProbs nat | ApplyTimestampRules timestamp_rules

record decoding_options =
  dec_start_step :: int
  dec_beam_size :: nat
  dec_patience :: real
  dec_length_penalty :: real
  dec_repetition_penalty :: real
  dec_no_repeat_ngram_size :: nat
  dec_max_length :: int
  dec_sampling_topk :: nat
  dec_sampling_temperature :: real
  dec_num_hypotheses :: nat
  dec_return_scores :: bool
  dec_return_attention :: bool
  dec_include_eos_in_hypotheses :: bool
  dec_disable_ids :: "nat list"
  dec_disable_ids_begin :: "nat list"
  dec_logits_processors :: "logits_processor list"

text \<open>
  A \<^verbatim>\<open>DecodingResult\<close> of the beam decoder and a \<^verbatim>\<open>WhisperGenerationResult\<close>. The
  latter's \<open>token_scores\<close> is one element of the former's, and its \<open>no_speech_prob\<close> is
  a plain float, 0 unless assigned.
\<close>

record decoding_result =
  res_hypotheses :: "nat list list"
  res_scores :: "real list"
  res_token_scores :: "real list list"
  res_attention :: "real list list list"

record whisper_generation_result =
  gen_sequences :: "string list list"
  gen_sequences_ids :: "nat list list"
  gen_scores :: "real list"
  gen_token_scores :: "real list"
  gen_attention :: "real list list list"
  gen_no_speech_prob :: real

text \<open>
  The collaborators behind \<^verbatim>\<open>_encoder\<close>, \<^verbatim>\<open>_decoder\<close> and \<^verbatim>\<open>decode\<close>, as parameters.
  \<open>'f\<close> is one row of features, \<open>'m\<close> the encoder output, \<open>'s\<close> the decoder state and
  \<open>'h\<close> the hidden outputs of a prefill. \<open>co_forward_prompt\<close> returns the state it
  leaves and the outputs it writes when asked for them. \<open>co_decode\<close> returns the
  decoding results together with the calls its loop made of the logits processors, in
  order: the processors are shared objects, and the driver reads the state of one of
  them after the call.
\<close>

record ('f, 'm, 's, 'h) collaborators =
  co_encoder :: "'f list \<Rightarrow> 'm"
  co_initial_state :: 's
  co_emplace_memory :: "'m \<Rightarrow> 's \<Rightarrow> 's"
  co_forward_prompt :: "nat list list \<Rightarrow> 's \<Rightarrow> 's \<times> 'h"
  co_compute_logits_for_steps :: "'h \<Rightarrow> nat list \<Rightarrow> real list list"
  co_decoder_step :: "int \<Rightarrow> nat list \<Rightarrow> 's \<Rightarrow> real list list"
  co_decode ::
    "'s \<Rightarrow> nat list list \<Rightarrow> nat \<Rightarrow> decoding_options \<Rightarrow> decoding_result list \<times> processor_call list"

text \<open>
  \<^verbatim>\<open>WhisperReplica::encode\<close> moves the features to the encoder's device and type when
  they differ and runs the encoder.
\<close>

definition encode :: "('f, 'm, 's, 'h) collaborators \<Rightarrow> 'f list \<Rightarrow> 'm" where
  "encode co features = co_encoder co features"

text \<open>
  Modelled from the spec: \<^verbatim>\<open>layers::make_sequence_inputs\<close> is declared outside this
  unit. The specification calls its result the token grid of the prefixes and takes
  the grid's second dimension for the prefix length. The model pads every row with 0
  up to the longest row; \<open>dim1\<close> is the second dimension.
\<close>

definition make_sequence_inputs :: "nat list list \<Rightarrow> nat list list" where
  "make_sequence_inputs ids =
     (let max_length = foldr max (map length ids) 0
      in map (\<lambda>row. row @ replicate (max_length - length row) 0) ids)"

definition dim1 :: "nat list list \<Rightarrow> nat" where
  "dim1 grid = (case grid of [] \<Rightarrow> 0 | row # _ \<Rightarrow> length row)"

section \<open>generate\<close>

text \<open>
  The split of one prompt: the iterator ranges
  \<^verbatim>\<open>[begin, begin + prompt_length - 1)\<close> and \<^verbatim>\<open>[begin + prompt_length - 1, end)\<close>, which
  exist only when \<open>1 \<le> prompt_length \<le> size\<close>.
\<close>

definition split_prompt :: "nat \<Rightarrow> nat list \<Rightarrow> error + (nat list \<times> nat list)" where
  "split_prompt prompt_length prompt =
     (if 1 \<le> prompt_length \<and> prompt_length \<le> length prompt
      then Inr (take (prompt_length - 1) prompt, drop (prompt_length - 1) prompt)
      else Inl Undefined_Behaviour)"

fun split_prompts :: "nat \<Rightarrow> nat list list \<Rightarrow> error + (nat list list \<times> nat list list)" where
  "split_prompts prompt_length [] = Inr ([], [])"
| "split_prompts prompt_length (prompt # rest) =
     (case split_prompt prompt_length prompt of
        Inl e \<Rightarrow> Inl e
      | Inr (prefix, start) \<Rightarrow>
          (case split_prompts prompt_length rest of
             Inl e \<Rightarrow> Inl e
           | Inr (prompt_tokens, start_tokens) \<Rightarrow>
               Inr (prefix # prompt_tokens, start # start_tokens)))"

text \<open>
  The prefill: the start tokens, the decoder state handed to the decoding loop, the
  no-speech probabilities computed eagerly (empty when they are not) and the start
  step.
\<close>

definition prefill ::
  "('f, 'm, 's, 'h) collaborators \<Rightarrow> kernels \<Rightarrow> whisper_replica \<Rightarrow> whisper_options
   \<Rightarrow> nat list list \<Rightarrow> nat \<Rightarrow> nat \<Rightarrow> 's
   \<Rightarrow> error + (nat list list \<times> 's \<times> real list \<times> int)" where
  "prefill co k replica options prompts sot_index prompt_length state =
     (let sot_is_start_token = (sot_index = size_t_sub prompt_length 1)
      in if prompt_length = 1 then Inr (prompts, state, [], 0)
         else
           (case split_prompts prompt_length prompts of
              Inl e \<Rightarrow> Inl e
            | Inr (prompt_tokens, start_tokens) \<Rightarrow>
                let inputs = make_sequence_inputs prompt_tokens
                in if \<not> opt_return_no_speech_prob options \<or> sot_is_start_token then
                     Inr (start_tokens, fst (co_forward_prompt co inputs state), [],
                          int (dim1 inputs))
                   else
                     (let (state', outputs) = co_forward_prompt co inputs state;
                          sot_index_batch = replicate (length inputs) sot_index;
                          logits = co_compute_logits_for_steps co outputs sot_index_batch
                      in case get_no_speech_probs_from_logits k logits
                                (replica_no_speech_id replica) of
                           Inl e \<Rightarrow> Inl e
                         | Inr no_speech_probs \<Rightarrow>
                             Inr (start_tokens, state', no_speech_probs, int (dim1 inputs)))))"

text \<open>
  The expansion of \<open>suppress_tokens\<close> (a vector of \<^verbatim>\<open>int\<close>) into \<open>disable_ids\<close>: one
  pass over the list, pushing at the back.
\<close>

fun expand_suppress_tokens :: "int list \<Rightarrow> nat list \<Rightarrow> nat list \<Rightarrow> nat list" where
  "expand_suppress_tokens [] suppress_ids disable_ids = disable_ids"
| "expand_suppress_tokens (id' # rest) suppress_ids disable_ids =
     expand_suppress_tokens rest suppress_ids
       (if id' \<ge> 0 then disable_ids @ [nat id']
        else if id' = - 1 then disable_ids @ suppress_ids
        else disable_ids)"

text \<open>
  The arguments of the constructor of \<^verbatim>\<open>ApplyTimestampRules\<close>: three \<^verbatim>\<open>size_t\<close> values
  computed from the replica's ids, the vocabulary's size and the option
  \<open>max_initial_timestamp_index\<close> (a \<^verbatim>\<open>size_t\<close> the caller supplies), each by an operation
  that wraps around.
\<close>

definition make_timestamp_rules :: "whisper_replica \<Rightarrow> whisper_options \<Rightarrow> timestamp_rules" where
  "make_timestamp_rules replica options =
     (let timestamp_begin_id = size_t_inc (replica_no_timestamps_id replica);
          timestamp_end_id = size_t_sub (replica_vocabulary_size replica) 1;
          max_initial_timestamp_id =
            size_t_add timestamp_begin_id (opt_max_initial_timestamp_index options)
      in \<lparr>rules_eot_id = replica_eot_id replica,
          rules_no_timestamps_id = replica_no_timestamps_id replica,
          rules_timestamp_begin_id = timestamp_begin_id,
          rules_timestamp_end_id = timestamp_end_id,
          rules_max_initial_timestamp_id = max_initial_timestamp_id\<rparr>)"

definition make_decoding_options ::
  "whisper_replica \<Rightarrow> whisper_options \<Rightarrow> int \<Rightarrow> logits_processor list \<Rightarrow> decoding_options" where
  "make_decoding_options replica options start_step processors =
     (let total_max_length = int (opt_max_length options)
      in \<lparr>dec_start_step = start_step,
          dec_beam_size = opt_beam_size options,
          dec_patience = opt_patience options,
          dec_length_penalty = opt_length_penalty options,
          dec_repetition_penalty = opt_repetition_penalty options,
          dec_no_repeat_ngram_size = opt_no_repeat_ngram_size options,
          dec_max_length = min (total_max_length div 2) (total_max_length - start_step),
          dec_sampling_topk = opt_sampling_topk options,
          dec_sampling_temperature = opt_sampling_temperature options,
          dec_num_hypotheses = opt_num_hypotheses options,
          dec_return_scores = opt_return_scores options,
          dec_return_attention = opt_return_attention options,
          dec_include_eos_in_hypotheses = False,
          dec_disable_ids =
            expand_suppress_tokens (opt_suppress_tokens options) (replica_suppress_ids replica) [],
          dec_disable_ids_begin =
            (if opt_suppress_blank options then replica_suppress_ids_begin replica else []),
          dec_logits_processors = processors\<rparr>)"

text \<open>
  Everything \<^verbatim>\<open>generate\<close> does before it calls \<^verbatim>\<open>decode\<close>, for a batch that is not
  empty: the arguments of that call (state, start tokens, decoding options), the
  eager no-speech probabilities, and whether the deferred processor was installed.
  The read \<^verbatim>\<open>prompts[0][prompt_length - 1]\<close> is checked against the prompt's size.
\<close>

definition generate_setup ::
  "('f, 'm, 's, 'h) collaborators \<Rightarrow> kernels \<Rightarrow> whisper_replica \<Rightarrow> 'f list \<Rightarrow> nat list list
   \<Rightarrow> whisper_options
   \<Rightarrow> error + ('s \<times> nat list list \<times> decoding_options \<times> real list \<times> bool)" where
  "generate_setup co k replica features prompts options =
     (case check_prompts prompts (replica_sot_id replica) (replica_no_timestamps_id replica)
             (0, 0) of
        Inl e \<Rightarrow> Inl e
      | Inr (sot_index, prompt_length) \<Rightarrow>
          let state = co_emplace_memory co (encode co features) (co_initial_state co);
              sot_is_start_token = (sot_index = size_t_sub prompt_length 1)
          in case prefill co k replica options prompts sot_index prompt_length state of
               Inl e \<Rightarrow> Inl e
             | Inr (start_tokens, state', no_speech_probs, start_step) \<Rightarrow>
                 let deferred = (opt_return_no_speech_prob options \<and> sot_is_start_token);
                     first_processor =
                       (if deferred then [GetNoSpeechProbs (replica_no_speech_id replica)]
                        else [])
                 in if size_t_sub prompt_length 1 < length (prompts ! 0) then
                      (let second_processor =
                             (if prompts ! 0 ! size_t_sub prompt_length 1
                                 \<noteq> replica_no_timestamps_id replica
                              then [ApplyTimestampRules (make_timestamp_rules replica options)]
                              else [])
                       in Inr (state', start_tokens,
                               make_decoding_options replica options start_step
                                 (first_processor @ second_processor),
                               no_speech_probs, deferred))
                    else Inl Undefined_Behaviour)"

text \<open>
  The state of the deferred processor after the decoding loop: its \<^verbatim>\<open>apply\<close> run over
  the loop's calls in order.
\<close>

fun run_get_no_speech_probs ::
  "kernels \<Rightarrow> nat \<Rightarrow> processor_call list \<Rightarrow> real list \<Rightarrow> error + real list" where
  "run_get_no_speech_probs k no_speech_id [] probs = Inr probs"
| "run_get_no_speech_probs k no_speech_id (call # calls) probs =
     (case get_no_speech_probs_apply k no_speech_id call probs of
        Inl e \<Rightarrow> Inl e
      | Inr (logits, probs') \<Rightarrow> run_get_no_speech_probs k no_speech_id calls probs')"

text \<open>
  The loop that packs the results. \<^verbatim>\<open>result.token_scores[0]\<close> and
  \<^verbatim>\<open>no_speech_probs[i]\<close> are reads of a vector and checked against its size.
\<close>

definition final_result ::
  "whisper_replica \<Rightarrow> whisper_options \<Rightarrow> real list \<Rightarrow> nat \<Rightarrow> decoding_result
   \<Rightarrow> error + whisper_generation_result" where
  "final_result replica options no_speech_probs i result =
     (if res_token_scores result = [] then Inl Undefined_Behaviour
      else if opt_return_no_speech_prob options \<and> \<not> i < length no_speech_probs
      then Inl Undefined_Behaviour
      else Inr \<lparr>gen_sequences = map (map (replica_to_token replica)) (res_hypotheses result),
                gen_sequences_ids = res_hypotheses result,
                gen_scores = res_scores result,
                gen_token_scores = res_token_scores result ! 0,
                gen_attention = res_attention result,
                gen_no_speech_prob =
                  (if opt_return_no_speech_prob options then no_speech_probs ! i else 0)\<rparr>)"

fun final_results ::
  "whisper_replica \<Rightarrow> whisper_options \<Rightarrow> real list \<Rightarrow> nat \<Rightarrow> decoding_result list
   \<Rightarrow> error + whisper_generation_result list" where
  "final_results replica options no_speech_probs i [] = Inr []"
| "final_results replica options no_speech_probs i (result # results) =
     (case final_result replica options no_speech_probs i result of
        Inl e \<Rightarrow> Inl e
      | Inr r \<Rightarrow>
          (case final_results replica options no_speech_probs (i + 1) results of
             Inl e \<Rightarrow> Inl e
           | Inr rs \<Rightarrow> Inr (r # rs)))"

definition generate ::
  "('f, 'm, 's, 'h) collaborators \<Rightarrow> kernels \<Rightarrow> whisper_replica \<Rightarrow> 'f list \<Rightarrow> nat list list
   \<Rightarrow> whisper_options \<Rightarrow> error + whisper_generation_result list" where
  "generate co k replica features prompts options =
     (if prompts = [] then Inr []
      else
        (case generate_setup co k replica features prompts options of
           Inl e \<Rightarrow> Inl e
         | Inr (state, start_tokens, decoding_options, eager_probs, deferred) \<Rightarrow>
             let (results, calls) =
                   co_decode co state start_tokens (replica_eot_id replica) decoding_options
             in case (if deferred
                      then run_get_no_speech_probs k (replica_no_speech_id replica) calls []
                      else Inr eager_probs) of
                  Inl e \<Rightarrow> Inl e
                | Inr no_speech_probs \<Rightarrow>
                    final_results replica options no_speech_probs 0 results))"


section \<open>detect_language\<close>

text \<open>
  \<^verbatim>\<open>Gather(axis=-1, batch_dims=1)\<close>: row \<open>i\<close> of the result holds the entries of row \<open>i\<close>
  of the input at the indices of row \<open>i\<close> of the index tensor.
\<close>

definition gather :: "real list list \<Rightarrow> nat list list \<Rightarrow> error + real list list" where
  "gather input ids =
     (if length input = length ids
         \<and> (\<forall>i<length ids. \<forall>j\<in>set (ids ! i). j < length (input ! i))
      then Inr (map (\<lambda>(row, row_ids). map (\<lambda>j. row ! j) row_ids) (zip input ids))
      else Inl Undefined_Behaviour)"

text \<open>
  \<^verbatim>\<open>std::sort\<close> with the comparison \<^verbatim>\<open>a.second > b.second\<close>. The standard fixes the
  result up to the order of elements that compare equal; the model is the insertion
  sort, which is one such result.
\<close>

fun insert_by_prob :: "string \<times> real \<Rightarrow> (string \<times> real) list \<Rightarrow> (string \<times> real) list" where
  "insert_by_prob a [] = [a]"
| "insert_by_prob a (b # bs) = (if snd b > snd a then b # insert_by_prob a bs else a # b # bs)"

fun sort_by_prob :: "(string \<times> real) list \<Rightarrow> (string \<times> real) list" where
  "sort_by_prob [] = []"
| "sort_by_prob (a # as) = insert_by_prob a (sort_by_prob as)"

definition language_row ::
  "whisper_replica \<Rightarrow> nat list \<Rightarrow> real list \<Rightarrow> error + (string \<times> real) list" where
  "language_row replica lang_ids probs =
     (if length lang_ids \<le> length probs
      then Inr (sort_by_prob
                  (map (\<lambda>j. (replica_to_token replica (lang_ids ! j), probs ! j))
                       [0..<length lang_ids]))
      else Inl Undefined_Behaviour)"

fun language_rows ::
  "whisper_replica \<Rightarrow> nat list \<Rightarrow> real list list \<Rightarrow> nat list
   \<Rightarrow> error + (string \<times> real) list list" where
  "language_rows replica lang_ids lang_probs [] = Inr []"
| "language_rows replica lang_ids lang_probs (i # rest) =
     (if i < length lang_probs then
        (case language_row replica lang_ids (lang_probs ! i) of
           Inl e \<Rightarrow> Inl e
         | Inr result \<Rightarrow>
             (case language_rows replica lang_ids lang_probs rest of
                Inl e \<Rightarrow> Inl e
              | Inr results \<Rightarrow> Inr (result # results)))
      else Inl Undefined_Behaviour)"

definition detect_language ::
  "('f, 'm, 's, 'h) collaborators \<Rightarrow> kernels \<Rightarrow> whisper_replica \<Rightarrow> 'f list
   \<Rightarrow> error + (string \<times> real) list list" where
  "detect_language co k replica features =
     (if \<not> replica_is_multilingual replica then Inl (Runtime_Error not_multilingual_msg)
      else
        (let sot = replica_sot_id replica;
             lang_ids = replica_lang_ids replica;
             batch_size = length features;
             start_ids = replicate batch_size sot;
             score_ids = replicate batch_size lang_ids;
             state = co_emplace_memory co (encode co features) (co_initial_state co);
             logits = co_decoder_step co 0 start_ids state
         in case gather logits score_ids of
              Inl e \<Rightarrow> Inl e
            | Inr gathered \<Rightarrow>
                language_rows replica lang_ids (k_softmax k gathered) [0..<batch_size]))"

section \<open>Contracts of the collaborators and a concrete instance\<close>

text \<open>
  The logits the decoder computes have one column per vocabulary entry, so the
  column \<open>no_speech_id\<close> exists in each row, also after the softmax.
\<close>

definition logits_span_vocabulary ::
  "('f, 'm, 's, 'h) collaborators \<Rightarrow> kernels \<Rightarrow> whisper_replica \<Rightarrow> bool" where
  "logits_span_vocabulary co k replica \<longleftrightarrow>
     (\<forall>outputs ids. \<forall>row\<in>set (k_softmax k (co_compute_logits_for_steps co outputs ids)).
        replica_no_speech_id replica < length row)"

text \<open>
  The softmax returns a tensor of the shape of its input, and a step of the decoder
  returns one row of logits per input id, with one column per vocabulary entry.
\<close>

definition softmax_keeps_shape :: "kernels \<Rightarrow> bool" where
  "softmax_keeps_shape k \<longleftrightarrow>
     (\<forall>x. length (k_softmax k x) = length x
          \<and> (\<forall>i<length x. length (k_softmax k x ! i) = length (x ! i)))"

definition decoder_step_shape :: "('f, 'm, 's, 'h) collaborators \<Rightarrow> whisper_replica \<Rightarrow> bool" where
  "decoder_step_shape co replica \<longleftrightarrow>
     (\<forall>step ids state.
        length (co_decoder_step co step ids state) = length ids
        \<and> (\<forall>i<length ids.
              length (co_decoder_step co step ids state ! i) = replica_vocabulary_size replica))"

text \<open>
  The softmax returns probabilities, and the logits computed for a list of steps have
  one row per entry of the list.
\<close>

definition softmax_unit_range :: "kernels \<Rightarrow> bool" where
  "softmax_unit_range k \<longleftrightarrow> (\<forall>x. \<forall>row\<in>set (k_softmax k x). \<forall>p\<in>set row. 0 \<le> p \<and> p \<le> 1)"

definition logits_per_row :: "('f, 'm, 's, 'h) collaborators \<Rightarrow> bool" where
  "logits_per_row co \<longleftrightarrow>
     (\<forall>outputs ids. length (co_compute_logits_for_steps co outputs ids) = length ids)"

text \<open>
  The decoder state before the prefill: the initial state with the encoder output
  stored under the key \<^verbatim>\<open>"memory"\<close>.
\<close>

definition memory_state :: "('f, 'm, 's, 'h) collaborators \<Rightarrow> 'f list \<Rightarrow> 's" where
  "memory_state co features = co_emplace_memory co (encode co features) (co_initial_state co)"

text \<open>
  The logits the eager path reads: those computed from the hidden outputs of the
  prefill at column \<open>sot_index\<close> of every row.
\<close>

definition sot_logits ::
  "('f, 'm, 's, 'h) collaborators \<Rightarrow> 'f list \<Rightarrow> nat list list \<Rightarrow> nat \<Rightarrow> nat \<Rightarrow> real list list" where
  "sot_logits co features prompts sot_index prompt_length =
     co_compute_logits_for_steps co
       (snd (co_forward_prompt co
               (make_sequence_inputs (map (take (prompt_length - 1)) prompts))
               (memory_state co features)))
       (replicate (length prompts) sot_index)"

text \<open>
  A small instance on which the theorems below are exercised: a vocabulary of eleven
  ids laid out as Whisper's, with one text token \<open>0\<close>, \<open>eot = 1\<close>, \<open>sot = 2\<close>, the
  language tokens \<open>3\<close> and \<open>4\<close>, \<open>no_speech = 5\<close>, \<open>no_timestamps = 6\<close> and the
  timestamps \<open>7, 8, 9, 10\<close>; kernels that are simple functions on lists; a decoder
  whose state is the list of token grids it has seen. Its decoding loop makes one step
  per token, at most \<open>max_length\<close> of them and four at most (three tokens and the end
  token), on \<open>beam_size\<close> rows of logits per batch row, and calls the processors at
  every step it makes; it returns \<open>num_hypotheses\<close> hypotheses per batch row, at most
  two, cut to \<open>max_length\<close> tokens, with their scores when \<open>return_scores\<close> is set and
  with an empty vector of token scores for each when it is not.
\<close>

definition toy_replica :: whisper_replica where
  "toy_replica =
     \<lparr>replica_sot_id = 2, replica_eot_id = 1, replica_no_timestamps_id = 6,
      replica_no_speech_id = 5, replica_is_multilingual = True,
      replica_vocabulary_size = 11,
      replica_to_token = (\<lambda>i. if i = 0 then ''a'' else if i = 3 then ''<|en|>''
                                else if i = 4 then ''<|fr|>'' else ''<|special|>''),
      replica_suppress_ids = [0, 5], replica_suppress_ids_begin = [1],
      replica_lang_ids = [3, 4]\<rparr>"

definition toy_options :: whisper_options where
  "toy_options =
     \<lparr>opt_beam_size = 1, opt_patience = 1, opt_length_penalty = 1,
      opt_repetition_penalty = 1, opt_no_repeat_ngram_size = 0, opt_max_length = 448,
      opt_sampling_topk = 1, opt_sampling_temperature = 1, opt_num_hypotheses = 1,
      opt_return_scores = True, opt_return_attention = False,
      opt_return_no_speech_prob = True, opt_max_initial_timestamp_index = 1,
      opt_suppress_blank = True, opt_suppress_tokens = [- 1]\<rparr>"

definition toy_kernels :: kernels where
  "toy_kernels =
     \<lparr>k_softmax = map (map (\<lambda>v. min 1 (max 0 v))), k_log_softmax = (\<lambda>logits. logits),
      k_max = (\<lambda>xs. foldr max xs 0), k_logsumexp = (\<lambda>xs. foldr (+) xs 0),
      k_disable_value = 0\<rparr>"

definition toy_row :: "real list" where
  "toy_row = [1 / 8, 0, 0, 1 / 8, 1 / 4, 1 / 8, 0, 1 / 4, 1 / 4, 1 / 4, 1 / 8]"

definition toy_build :: build where
  "toy_build = \<lparr>with_cuda = False, tensor_device = CPU, tensor_dtype = FLOAT32\<rparr>"



definition toy_single_result :: whisper_generation_result where
  "toy_single_result =
     \<lparr>gen_sequences = [[''<|special|>'', ''a'', ''<|special|>'']],
      gen_sequences_ids = [[7, 0, 8]], gen_scores = [- 1],
      gen_token_scores = [- 1 / 2, - 1 / 4, - 1 / 4], gen_attention = [],
      gen_no_speech_prob = 1 / 8\<rparr>"



definition toy_call :: processor_call where
  "toy_call =
     \<lparr>call_step = 0, call_logits = [toy_row, toy_row], call_sequences = [[], []],
      call_batch_offset = [0, 1], call_sample_begin = (\<lambda>b. 0)\<rparr>"

definition toy_call_later :: processor_call where
  "toy_call_later =
     \<lparr>call_step = 2, call_logits = [toy_row, toy_row], call_sequences = [[8, 0], [7, 8]],
      call_batch_offset = [0, 1], call_sample_begin = (\<lambda>b. 0)\<rparr>"

definition toy_decoded :: "decoding_options \<Rightarrow> decoding_result" where
  "toy_decoded decoding_options =
     (let n = dec_num_hypotheses decoding_options;
          m = nat (dec_max_length decoding_options);
          token_scores = map (take m) (take n [[- 1 / 2, - 1 / 4, - 1 / 4], [- 1, - 1]])
      in \<lparr>res_hypotheses = map (take m) (take n [[7, 0, 8], [7, 8]]),
          res_scores = (if dec_return_scores decoding_options then map sum_list token_scores
                        else []),
          res_token_scores = (if dec_return_scores decoding_options then token_scores
                              else map (\<lambda>scores. []) token_scores),
          res_attention = []\<rparr>)"

definition toy_calls :: "nat list list \<Rightarrow> decoding_options \<Rightarrow> processor_call list" where
  "toy_calls start_tokens decoding_options =
     map (\<lambda>step.
            \<lparr>call_step = int step,
             call_logits =
               concat (map (\<lambda>t. replicate (dec_beam_size decoding_options) toy_row)
                         start_tokens),
             call_sequences =
               concat (map (\<lambda>t. replicate (dec_beam_size decoding_options) (take step [7, 0, 8]))
                         start_tokens),
             call_batch_offset = [0..<length start_tokens],
             call_sample_begin = (\<lambda>b. 0)\<rparr>)
         [0..<min 4 (nat (dec_max_length decoding_options))]"

definition toy_collaborators :: "(nat, nat, nat list list list, nat) collaborators" where
  "toy_collaborators =
     \<lparr>co_encoder = length,
      co_initial_state = [],
      co_emplace_memory = (\<lambda>m s. s),
      co_forward_prompt = (\<lambda>inputs s. (s @ [inputs], length inputs)),
      co_compute_logits_for_steps = (\<lambda>outputs ids. map (\<lambda>i. toy_row) ids),
      co_decoder_step = (\<lambda>step ids s. map (\<lambda>i. toy_row) ids),
      co_decode = (\<lambda>s start_tokens end_id decoding_options.
                     (map (\<lambda>t. toy_decoded decoding_options) start_tokens,
                      toy_calls start_tokens decoding_options))\<rparr>"

section \<open>The specification's reading of the suppression list\<close>

text \<open>
  The specification's words for step 7 of \<open>generate\<close>: the positive ids of
  \<open>suppress_tokens\<close> are copied into \<open>disable_ids\<close>, and if \<open>- 1\<close> is present the
  configuration's \<open>suppress_ids\<close> are pushed as well; nothing else.
\<close>

definition spec_disable_ids :: "int list \<Rightarrow> nat list \<Rightarrow> nat set" where
  "spec_disable_ids suppress_tokens suppress_ids =
     {n. \<exists>i. i \<in> set suppress_tokens \<and> 0 < i \<and> n = nat i}
     \<union> (if - 1 \<in> set suppress_tokens then set suppress_ids else {})"

section \<open>The specification's reading of the packed results\<close>


section \<open>Prompt analysis: proofs\<close>

lemma get_sot_index_Inl:
  assumes "sot_id \<notin> set prompt"
  shows "get_sot_index prompt sot_id = Inl (Invalid_Argument sot_not_found_msg)"
proof -
  have all: "takeWhile (\<lambda>t. t \<noteq> sot_id) prompt = prompt"
    using assms by (auto simp: takeWhile_eq_all_conv)
  show ?thesis
    unfolding get_sot_index_def Let_def all by simp
qed

lemma takeWhile_neq_length:
  "x \<in> set xs \<Longrightarrow> length (takeWhile (\<lambda>t. t \<noteq> x) xs) < length xs"
  by (induction xs) auto

lemma get_sot_index_Inr:
  assumes "sot_id \<in> set prompt"
  shows "get_sot_index prompt sot_id = Inr (length (takeWhile (\<lambda>t. t \<noteq> sot_id) prompt))"
  using takeWhile_neq_length [OF assms] by (simp add: get_sot_index_def Let_def)

lemma get_sot_index_cases:
  "get_sot_index prompt sot_id = Inr i \<longleftrightarrow>
     sot_id \<in> set prompt \<and> i = length (takeWhile (\<lambda>t. t \<noteq> sot_id) prompt)"
  by (cases "sot_id \<in> set prompt") (auto simp: get_sot_index_Inr get_sot_index_Inl)

lemma get_sot_index_is_sot_index:
  assumes "get_sot_index prompt sot_id = Inr i"
  shows "is_sot_index prompt sot_id i"
proof -
  from assms have mem: "sot_id \<in> set prompt"
    and i: "i = length (takeWhile (\<lambda>t. t \<noteq> sot_id) prompt)"
    by (simp_all add: get_sot_index_cases)
  have lt: "i < length prompt"
    using takeWhile_neq_length [OF mem] i by simp
  have at: "prompt ! i = sot_id"
    using nth_length_takeWhile [of "\<lambda>t. t \<noteq> sot_id" prompt] lt i by auto
  have before: "\<forall>j<i. prompt ! j \<noteq> sot_id"
  proof (intro allI impI)
    fix j assume "j < i"
    then have j: "j < length (takeWhile (\<lambda>t. t \<noteq> sot_id) prompt)" using i by simp
    then have same: "takeWhile (\<lambda>t. t \<noteq> sot_id) prompt ! j = prompt ! j"
      by (rule takeWhile_nth)
    from j have "takeWhile (\<lambda>t. t \<noteq> sot_id) prompt ! j \<in> set (takeWhile (\<lambda>t. t \<noteq> sot_id) prompt)"
      by (rule nth_mem)
    then have "takeWhile (\<lambda>t. t \<noteq> sot_id) prompt ! j \<noteq> sot_id"
      by (rule set_takeWhileD [THEN conjunct2])
    then show "prompt ! j \<noteq> sot_id"
      using same by simp
  qed
  show ?thesis
    unfolding is_sot_index_def using lt at before by simp
qed

lemma prompt_length_loop_spec:
  "index \<le> length prompt \<Longrightarrow>
   is_prompt_length prompt sot_id no_timestamps_id index
     (prompt_length_loop prompt sot_id no_timestamps_id index)"
proof (induction prompt sot_id no_timestamps_id index rule: prompt_length_loop.induct)
  case (1 prompt sot_id no_timestamps_id index)
  show ?case
  proof (cases "index < length prompt \<and> prompt ! index \<ge> sot_id \<and> prompt ! index \<le> no_timestamps_id")
    case True
    then have eq: "prompt_length_loop prompt sot_id no_timestamps_id index
        = prompt_length_loop prompt sot_id no_timestamps_id (index + 1)"
      by (subst prompt_length_loop.simps) simp
    from True have "index + 1 \<le> length prompt" by simp
    from "1.IH" [OF True this]
    have ih: "is_prompt_length prompt sot_id no_timestamps_id (index + 1)
        (prompt_length_loop prompt sot_id no_timestamps_id (index + 1))" .
    show ?thesis
      unfolding eq using ih True
      unfolding is_prompt_length_def in_task_range_def
      by (metis Suc_eq_plus1 Suc_leD le_antisym not_less_eq_eq)
  next
    case False
    then have eq: "prompt_length_loop prompt sot_id no_timestamps_id index = index"
      by (subst prompt_length_loop.simps) (simp only: if_False)
    show ?thesis
      unfolding eq is_prompt_length_def in_task_range_def
      using False "1.prems" by auto
  qed
qed

lemma is_sot_index_unique:
  assumes "is_sot_index prompt sot_id i" and "is_sot_index prompt sot_id j"
  shows "i = j"
proof (rule ccontr)
  assume "i \<noteq> j"
  then consider "i < j" | "j < i" by linarith
  then show False
    using assms unfolding is_sot_index_def by cases auto
qed

lemma is_sot_index_iff:
  "is_sot_index prompt sot_id i \<longleftrightarrow> get_sot_index prompt sot_id = Inr i"
proof
  assume h: "is_sot_index prompt sot_id i"
  then have "sot_id \<in> set prompt"
    unfolding is_sot_index_def by (metis nth_mem)
  then obtain j where j: "get_sot_index prompt sot_id = Inr j"
    by (auto simp: get_sot_index_Inr)
  from get_sot_index_is_sot_index [OF j] h have "i = j"
    by (rule is_sot_index_unique [OF _ _, symmetric])
  with j show "get_sot_index prompt sot_id = Inr i" by simp
next
  assume "get_sot_index prompt sot_id = Inr i"
  then show "is_sot_index prompt sot_id i" by (rule get_sot_index_is_sot_index)
qed

lemma is_sot_index_mem: "is_sot_index prompt sot_id i \<Longrightarrow> sot_id \<in> set prompt"
  by (simp add: is_sot_index_iff get_sot_index_cases)

lemma is_prompt_length_unique:
  assumes "is_prompt_length prompt sot_id no_timestamps_id i n"
    and "is_prompt_length prompt sot_id no_timestamps_id i m"
  shows "n = m"
proof (rule ccontr)
  assume "n \<noteq> m"
  then consider "n < m" | "m < n" by linarith
  then show False
  proof cases
    case 1
    with assms(2) have "n < length prompt" and "in_task_range sot_id no_timestamps_id (prompt ! n)"
      using assms(1) unfolding is_prompt_length_def by auto
    with assms(1) show False unfolding is_prompt_length_def by simp
  next
    case 2
    with assms(1) have "m < length prompt" and "in_task_range sot_id no_timestamps_id (prompt ! m)"
      using assms(2) unfolding is_prompt_length_def by auto
    with assms(2) show False unfolding is_prompt_length_def by simp
  qed
qed

lemma get_prompt_length_iff:
  "get_prompt_length prompt sot_id no_timestamps_id = Inr n \<longleftrightarrow>
     (\<exists>i. is_sot_index prompt sot_id i \<and> is_prompt_length prompt sot_id no_timestamps_id i n)"
proof
  assume h: "get_prompt_length prompt sot_id no_timestamps_id = Inr n"
  then obtain i where i: "get_sot_index prompt sot_id = Inr i"
    and n: "n = prompt_length_loop prompt sot_id no_timestamps_id i"
    by (auto simp: get_prompt_length_def split: sum.splits)
  from i have si: "is_sot_index prompt sot_id i" by (simp add: is_sot_index_iff)
  then have "i \<le> length prompt" by (simp add: is_sot_index_def)
  from prompt_length_loop_spec [OF this] n si
  show "\<exists>i. is_sot_index prompt sot_id i \<and> is_prompt_length prompt sot_id no_timestamps_id i n"
    by blast
next
  assume "\<exists>i. is_sot_index prompt sot_id i \<and> is_prompt_length prompt sot_id no_timestamps_id i n"
  then obtain i where si: "is_sot_index prompt sot_id i"
    and pl: "is_prompt_length prompt sot_id no_timestamps_id i n" by blast
  from si have i: "get_sot_index prompt sot_id = Inr i" by (simp add: is_sot_index_iff)
  from si have "i \<le> length prompt" by (simp add: is_sot_index_def)
  from prompt_length_loop_spec [OF this]
  have "n = prompt_length_loop prompt sot_id no_timestamps_id i"
    by (rule is_prompt_length_unique [OF pl])
  with i show "get_prompt_length prompt sot_id no_timestamps_id = Inr n"
    by (simp add: get_prompt_length_def)
qed

lemma get_prompt_length_Inl:
  "sot_id \<notin> set prompt \<Longrightarrow>
   get_prompt_length prompt sot_id no_timestamps_id = Inl (Invalid_Argument sot_not_found_msg)"
  by (simp add: get_prompt_length_def get_sot_index_Inl)

lemma check_prompts_loop_error:
  "check_prompts_loop prompts sot_id no_timestamps_id first init = Inl e \<Longrightarrow>
   \<exists>m. e = Invalid_Argument m"
proof (induction prompts sot_id no_timestamps_id first init rule: check_prompts_loop.induct)
  case (1 sot_id no_timestamps_id first sot_index prompt_length)
  then show ?case by simp
next
  case (2 prompt rest sot_id no_timestamps_id first sot_index prompt_length)
  show ?case
  proof (cases "sot_id \<in> set prompt")
    case False
    with "2.prems" show ?thesis by (auto simp: get_sot_index_Inl)
  next
    case True
    then obtain i where i: "get_sot_index prompt sot_id = Inr i"
      by (auto simp: get_sot_index_Inr)
    then obtain n where n: "get_prompt_length prompt sot_id no_timestamps_id = Inr n"
      by (simp add: get_prompt_length_def)
    show ?thesis
      using "2.prems" "2.IH" i n by (auto split: if_splits)
  qed
qed

lemma check_prompts_loop_later:
  "check_prompts_loop prompts sot_id no_timestamps_id False (si, pl) = Inr r \<longleftrightarrow>
     r = (si, pl) \<and>
     (\<forall>p\<in>set prompts. get_sot_index p sot_id = Inr si
        \<and> get_prompt_length p sot_id no_timestamps_id = Inr pl)"
proof (induction prompts)
  case Nil
  show ?case by auto
next
  case (Cons p ps)
  show ?case
  proof (cases "get_sot_index p sot_id")
    case (Inl e)
    then show ?thesis by simp
  next
    case (Inr i)
    then obtain n where n: "get_prompt_length p sot_id no_timestamps_id = Inr n"
      by (simp add: get_prompt_length_def)
    show ?thesis
      using Inr n Cons.IH by auto
  qed
qed

lemma check_prompts_Cons:
  "check_prompts (p0 # rest) sot_id no_timestamps_id init = Inr r \<longleftrightarrow>
     (\<forall>p\<in>set (p0 # rest). get_sot_index p sot_id = Inr (fst r)
        \<and> get_prompt_length p sot_id no_timestamps_id = Inr (snd r))"
proof (cases "get_sot_index p0 sot_id")
  case (Inl e)
  then show ?thesis by (cases init) (simp add: check_prompts_def)
next
  case (Inr i)
  then obtain n where n: "get_prompt_length p0 sot_id no_timestamps_id = Inr n"
    by (simp add: get_prompt_length_def)
  show ?thesis
    using Inr n by (cases init; cases r) (auto simp: check_prompts_def check_prompts_loop_later)
qed

lemma check_prompts_error:
  "check_prompts prompts sot_id no_timestamps_id init = Inl e \<Longrightarrow> \<exists>m. e = Invalid_Argument m"
  unfolding check_prompts_def by (rule check_prompts_loop_error)

lemma check_prompts_not_Inr:
  assumes "\<And>r. check_prompts prompts sot_id no_timestamps_id init \<noteq> Inr r"
  shows "\<exists>m. check_prompts prompts sot_id no_timestamps_id init = Inl (Invalid_Argument m)"
proof (cases "check_prompts prompts sot_id no_timestamps_id init")
  case (Inl e)
  with check_prompts_error [OF Inl] show ?thesis by auto
next
  case (Inr r)
  with assms [of r] show ?thesis by simp
qed

text \<open>
  Claim C5. Prompt analysis over a batch throws invalid-argument when some prompt
  lacks the SOT token, and throws invalid-argument when a later prompt's pair
  (sot_index, prompt_length) differs from the first prompt's; otherwise it returns the
  common pair, where sot_index is the position of SOT and prompt_length is the
  smallest index from sot_index on whose token lies outside
  \<open>[sot_id, no_timestamps_id]\<close>, or the prompt's length if there is none. (On an empty
  batch the loop body never runs and the two outputs keep the caller's values.)
\<close>

theorem check_prompts_analysis:
  "((\<exists>p\<in>set prompts. sot_id \<notin> set p) \<longrightarrow>
      (\<exists>m. check_prompts prompts sot_id no_timestamps_id init = Inl (Invalid_Argument m)))
   \<and> (\<forall>p0 rest si pl.
        prompts = p0 # rest
        \<and> is_sot_index p0 sot_id si \<and> is_prompt_length p0 sot_id no_timestamps_id si pl
        \<and> (\<exists>p\<in>set rest. \<not> (is_sot_index p sot_id si
                               \<and> is_prompt_length p sot_id no_timestamps_id si pl))
        \<longrightarrow> (\<exists>m. check_prompts prompts sot_id no_timestamps_id init = Inl (Invalid_Argument m)))
   \<and> (\<forall>p0 rest si pl.
        prompts = p0 # rest
        \<and> (\<forall>p\<in>set prompts. is_sot_index p sot_id si
                               \<and> is_prompt_length p sot_id no_timestamps_id si pl)
        \<longrightarrow> check_prompts prompts sot_id no_timestamps_id init = Inr (si, pl))
   \<and> (prompts = [] \<longrightarrow> check_prompts prompts sot_id no_timestamps_id init = Inr init)"
proof (intro conjI allI impI)
  assume "\<exists>p\<in>set prompts. sot_id \<notin> set p"
  then obtain p where p: "p \<in> set prompts" "sot_id \<notin> set p" by blast
  then obtain p0 rest where ps: "prompts = p0 # rest" by (cases prompts) auto
  have "check_prompts prompts sot_id no_timestamps_id init \<noteq> Inr r" for r
    using p unfolding ps check_prompts_Cons
    by (metis get_sot_index_Inl sum.distinct(1))
  then show "\<exists>m. check_prompts prompts sot_id no_timestamps_id init = Inl (Invalid_Argument m)"
    by (rule check_prompts_not_Inr)
next
  fix p0 rest si pl
  assume h: "prompts = p0 # rest
        \<and> is_sot_index p0 sot_id si \<and> is_prompt_length p0 sot_id no_timestamps_id si pl
        \<and> (\<exists>p\<in>set rest. \<not> (is_sot_index p sot_id si
                               \<and> is_prompt_length p sot_id no_timestamps_id si pl))"
  then obtain p where p: "p \<in> set rest"
    "\<not> (is_sot_index p sot_id si \<and> is_prompt_length p sot_id no_timestamps_id si pl)"
    by blast
  from h have ps: "prompts = p0 # rest" by simp
  from h have first: "get_sot_index p0 sot_id = Inr si"
    "get_prompt_length p0 sot_id no_timestamps_id = Inr pl"
    by (auto simp: is_sot_index_iff get_prompt_length_iff)
  have "check_prompts prompts sot_id no_timestamps_id init \<noteq> Inr r" for r
  proof
    assume "check_prompts prompts sot_id no_timestamps_id init = Inr r"
    then have all: "\<forall>q\<in>set (p0 # rest). get_sot_index q sot_id = Inr (fst r)
        \<and> get_prompt_length q sot_id no_timestamps_id = Inr (snd r)"
      unfolding ps check_prompts_Cons .
    with first have r: "fst r = si" "snd r = pl" by auto
    from all p(1) r have "get_sot_index p sot_id = Inr si"
      and pl: "get_prompt_length p sot_id no_timestamps_id = Inr pl" by auto
    then have si: "is_sot_index p sot_id si" by (simp add: is_sot_index_iff)
    from pl obtain i where "is_sot_index p sot_id i"
      and ipl: "is_prompt_length p sot_id no_timestamps_id i pl"
      unfolding get_prompt_length_iff by blast
    with si have "i = si" by (auto intro: is_sot_index_unique)
    with si ipl p(2) show False by simp
  qed
  then show "\<exists>m. check_prompts prompts sot_id no_timestamps_id init = Inl (Invalid_Argument m)"
    by (rule check_prompts_not_Inr)
next
  fix p0 rest si pl
  assume h: "prompts = p0 # rest
        \<and> (\<forall>p\<in>set prompts. is_sot_index p sot_id si
                               \<and> is_prompt_length p sot_id no_timestamps_id si pl)"
  then have ps: "prompts = p0 # rest" by simp
  from h have "\<forall>p\<in>set (p0 # rest). get_sot_index p sot_id = Inr si
        \<and> get_prompt_length p sot_id no_timestamps_id = Inr pl"
    unfolding ps by (auto simp: is_sot_index_iff get_prompt_length_iff)
  then show "check_prompts prompts sot_id no_timestamps_id init = Inr (si, pl)"
    unfolding ps using check_prompts_Cons [of p0 rest sot_id no_timestamps_id init "(si, pl)"]
    by simp
next
  assume "prompts = []"
  then show "check_prompts prompts sot_id no_timestamps_id init = Inr init"
    by (cases init) (simp add: check_prompts_def)
qed

lemma is_sot_index_example: "is_sot_index [7, 1, 2, 9] 1 1 \<and> is_sot_index [8, 1, 2] 1 1"
  by (simp add: is_sot_index_def)

lemma is_prompt_length_example:
  "is_prompt_length [7, 1, 2, 9] 1 3 1 3 \<and> is_prompt_length [8, 1, 2] 1 3 1 3
   \<and> \<not> is_prompt_length [1, 2] 1 3 1 3"
  by (auto simp: is_prompt_length_def in_task_range_def nth_Cons' less_Suc_eq numeral_3_eq_3)

theorem check_prompts_analysis_witness:
  "check_prompts [[7, 1, 2, 9], [8, 1, 2]] 1 3 (0, 0) = Inr (1, 3)
   \<and> (\<exists>m. check_prompts [[7, 1, 2, 9], [1, 2]] 1 3 (0, 0) = Inl (Invalid_Argument m))
   \<and> (\<exists>m. check_prompts [[7, 1, 2, 9], [8, 2]] 1 3 (0, 0) = Inl (Invalid_Argument m))
   \<and> check_prompts [] 1 3 (4, 5) = Inr (4, 5)"
proof -
  have a: "check_prompts [[7, 1, 2, 9], [8, 1, 2]] 1 3 (0, 0) = Inr (1, 3)"
    using check_prompts_analysis [of "[[7, 1, 2, 9], [8, 1, 2]]" 1 3 "(0, 0)"]
      is_sot_index_example is_prompt_length_example by simp
  have b: "\<exists>m. check_prompts [[7, 1, 2, 9], [1, 2]] 1 3 (0, 0) = Inl (Invalid_Argument m)"
    using check_prompts_analysis [of "[[7, 1, 2, 9], [1, 2]]" 1 3 "(0, 0)",
        THEN conjunct2, THEN conjunct1, rule_format, of "[7, 1, 2, 9]" "[[1, 2]]" 1 3]
      is_sot_index_example is_prompt_length_example by simp
  have c: "\<exists>m. check_prompts [[7, 1, 2, 9], [8, 2]] 1 3 (0, 0) = Inl (Invalid_Argument m)"
    using check_prompts_analysis [of "[[7, 1, 2, 9], [8, 2]]" 1 3 "(0, 0)"] by simp
  have d: "check_prompts [] 1 3 (4, 5) = Inr (4, 5)"
    using check_prompts_analysis [of "[]" 1 3 "(4, 5)"] by simp
  from a b c d show ?thesis by blast
qed

section \<open>The prefill split: proofs\<close>

lemma validated_batch:
  assumes "check_prompts prompts sot_id no_timestamps_id init = Inr (si, pl)"
    and "prompts \<noteq> []" and "p \<in> set prompts"
  shows "is_sot_index p sot_id si \<and> is_prompt_length p sot_id no_timestamps_id si pl"
proof -
  from assms(2) obtain p0 rest where ps: "prompts = p0 # rest" by (cases prompts) auto
  from assms(1) have "\<forall>q\<in>set (p0 # rest). get_sot_index q sot_id = Inr si
      \<and> get_prompt_length q sot_id no_timestamps_id = Inr pl"
    unfolding ps check_prompts_Cons by simp
  with assms(3) have si: "get_sot_index p sot_id = Inr si"
    and pl: "get_prompt_length p sot_id no_timestamps_id = Inr pl"
    unfolding ps by auto
  from si have a: "is_sot_index p sot_id si" by (simp add: is_sot_index_iff)
  from pl obtain i where "is_sot_index p sot_id i"
    and b: "is_prompt_length p sot_id no_timestamps_id i pl"
    unfolding get_prompt_length_iff by blast
  with a have "i = si" by (auto intro: is_sot_index_unique)
  with a b show ?thesis by simp
qed

lemma sot_before_prompt_length:
  assumes "is_sot_index p sot_id si"
    and "is_prompt_length p sot_id no_timestamps_id si pl"
    and "sot_id \<le> no_timestamps_id"
  shows "si < pl \<and> pl \<le> length p"
proof -
  from assms(2) have le: "si \<le> pl" and len: "pl \<le> length p"
    by (simp_all add: is_prompt_length_def)
  have "pl \<noteq> si"
  proof
    assume eq: "pl = si"
    with assms(1) have "pl < length p" and "p ! pl = sot_id"
      by (simp_all add: is_sot_index_def)
    with assms(2) have "\<not> in_task_range sot_id no_timestamps_id sot_id"
      by (auto simp: is_prompt_length_def)
    with assms(3) show False by (simp add: in_task_range_def)
  qed
  with le len show ?thesis by simp
qed

lemma size_t_sub_pos: "0 < n \<Longrightarrow> size_t_sub n 1 = n - 1"
  by (simp add: size_t_sub_def)

lemma split_prompts_all:
  "\<forall>p\<in>set prompts. 1 \<le> pl \<and> pl \<le> length p \<Longrightarrow>
   split_prompts pl prompts = Inr (map (take (pl - 1)) prompts, map (drop (pl - 1)) prompts)"
  by (induction prompts) (simp_all add: split_prompt_def)

lemma foldr_max_length_const:
  "ids \<noteq> [] \<Longrightarrow> \<forall>row\<in>set ids. length row = n \<Longrightarrow> foldr max (map length ids) 0 = n"
proof (induction ids)
  case Nil
  then show ?case by simp
next
  case (Cons row rest)
  show ?case
  proof (cases "rest = []")
    case True
    with Cons.prems show ?thesis by simp
  next
    case False
    with Cons have "foldr max (map length rest) 0 = n" by simp
    with Cons.prems show ?thesis by simp
  qed
qed

lemma dim1_make_sequence_inputs:
  assumes "ids \<noteq> []" and "\<forall>row\<in>set ids. length row = n"
  shows "dim1 (make_sequence_inputs ids) = n \<and> make_sequence_inputs ids = ids"
proof -
  have m: "foldr max (map length ids) 0 = n"
    using assms by (rule foldr_max_length_const)
  have "map (\<lambda>row. row @ replicate (n - length row) 0) ids = ids"
    using assms(2) by (induction ids) auto
  then have eq: "make_sequence_inputs ids = ids"
    by (simp add: make_sequence_inputs_def m)
  from assms obtain row rest where "ids = row # rest" and "length row = n"
    by (cases ids) auto
  then show ?thesis
    unfolding eq by (simp add: dim1_def)
qed

text \<open>
  Claim C10. For every prompt that contains \<open>sot_id\<close>, under the hypothesis
  \<open>sot_id \<le> no_timestamps_id\<close>, the computed prompt length satisfies
  \<open>sot_index < prompt_length \<le> length prompt\<close>. Consequently, for every validated batch,
  the index \<open>prompt_length - 1\<close> does not wrap around (so the predicate
  \<open>sot_is_start_token\<close> compares with the true predecessor), the read at
  \<open>prompt_length - 1\<close> is inside every prompt, and the split of every prompt at
  \<open>prompt_length - 1\<close> is defined.
\<close>

theorem prompt_length_in_bounds:
  assumes "sot_id \<le> no_timestamps_id"
  shows "(sot_id \<in> set prompt \<longrightarrow>
            (\<exists>si pl. get_sot_index prompt sot_id = Inr si
               \<and> get_prompt_length prompt sot_id no_timestamps_id = Inr pl
               \<and> si < pl \<and> pl \<le> length prompt))
         \<and> (prompts \<noteq> [] \<and> check_prompts prompts sot_id no_timestamps_id init = Inr (si, pl) \<longrightarrow>
              si < pl \<and> size_t_sub pl 1 = pl - 1
              \<and> (\<forall>p\<in>set prompts. size_t_sub pl 1 < length p)
              \<and> split_prompts pl prompts
                  = Inr (map (take (pl - 1)) prompts, map (drop (pl - 1)) prompts))"
proof -
  have one: "sot_id \<in> set prompt \<longrightarrow>
            (\<exists>si pl. get_sot_index prompt sot_id = Inr si
               \<and> get_prompt_length prompt sot_id no_timestamps_id = Inr pl
               \<and> si < pl \<and> pl \<le> length prompt)"
  proof
  assume mem: "sot_id \<in> set prompt"
  then obtain i where i: "get_sot_index prompt sot_id = Inr i"
    by (auto simp: get_sot_index_Inr)
  then obtain n where n: "get_prompt_length prompt sot_id no_timestamps_id = Inr n"
    by (simp add: get_prompt_length_def)
  from i have a: "is_sot_index prompt sot_id i" by (simp add: is_sot_index_iff)
  from n obtain j where "is_sot_index prompt sot_id j"
    and b: "is_prompt_length prompt sot_id no_timestamps_id j n"
    unfolding get_prompt_length_iff by blast
  with a have "j = i" by (auto intro: is_sot_index_unique)
  with b have "is_prompt_length prompt sot_id no_timestamps_id i n" by simp
  from sot_before_prompt_length [OF a this assms] i n
  show "\<exists>si pl. get_sot_index prompt sot_id = Inr si
               \<and> get_prompt_length prompt sot_id no_timestamps_id = Inr pl
               \<and> si < pl \<and> pl \<le> length prompt"
    by blast
  qed
  have batch: "prompts \<noteq> [] \<and> check_prompts prompts sot_id no_timestamps_id init = Inr (si, pl) \<longrightarrow>
              si < pl \<and> size_t_sub pl 1 = pl - 1
              \<and> (\<forall>p\<in>set prompts. size_t_sub pl 1 < length p)
              \<and> split_prompts pl prompts
                  = Inr (map (take (pl - 1)) prompts, map (drop (pl - 1)) prompts)"
  proof
  assume h: "prompts \<noteq> [] \<and> check_prompts prompts sot_id no_timestamps_id init = Inr (si, pl)"
  have each: "si < pl \<and> pl \<le> length p" if "p \<in> set prompts" for p
  proof -
    from validated_batch [of prompts sot_id no_timestamps_id init si pl p] h that
    have "is_sot_index p sot_id si" and "is_prompt_length p sot_id no_timestamps_id si pl"
      by simp_all
    then show ?thesis using assms by (rule sot_before_prompt_length)
  qed
  from h obtain p0 where "p0 \<in> set prompts" by (cases prompts) auto
  from each [OF this] have pos: "si < pl" by simp
  then have "0 < pl" by simp
  then have sub: "size_t_sub pl 1 = pl - 1" by (rule size_t_sub_pos)
  have inside: "\<forall>p\<in>set prompts. size_t_sub pl 1 < length p"
    unfolding sub using each pos by fastforce
  have "\<forall>p\<in>set prompts. 1 \<le> pl \<and> pl \<le> length p"
    using each by fastforce
  then have split: "split_prompts pl prompts
      = Inr (map (take (pl - 1)) prompts, map (drop (pl - 1)) prompts)"
    by (rule split_prompts_all)
  from pos sub inside split
  show "si < pl \<and> size_t_sub pl 1 = pl - 1
      \<and> (\<forall>p\<in>set prompts. size_t_sub pl 1 < length p)
      \<and> split_prompts pl prompts
          = Inr (map (take (pl - 1)) prompts, map (drop (pl - 1)) prompts)"
    by simp
  qed
  from one batch show ?thesis by (rule conjI)
qed

lemma check_prompts_example:
  "check_prompts [[7, 1, 2, 9], [8, 1, 2]] 1 3 (0, 0) = Inr (1, 3)"
  by code_simp

theorem prompt_length_in_bounds_witness:
  "get_sot_index [7, 1, 2, 9] 1 = Inr 1
   \<and> get_prompt_length [7, 1, 2, 9] 1 3 = Inr 3
   \<and> size_t_sub 3 1 = 2
   \<and> split_prompts 3 [[7, 1, 2, 9], [8, 1, 2]] = Inr ([[7, 1], [8, 1]], [[2, 9], [2]])"
proof -
  have le: "(1::nat) \<le> 3" by simp
  have a: "get_sot_index [7, 1, 2, 9] 1 = Inr 1" by code_simp
  have b: "get_prompt_length [7, 1, 2, 9] 1 3 = Inr 3" by code_simp
  from prompt_length_in_bounds [OF le, of "[7, 1, 2, 9]" "[[7, 1, 2, 9], [8, 1, 2]]" "(0, 0)" 1 3]
    check_prompts_example
  have "size_t_sub 3 1 = 3 - 1"
    and "split_prompts 3 [[7, 1, 2, 9], [8, 1, 2]]
      = Inr (map (take (3 - 1)) [[7, 1, 2, 9], [8, 1, 2]], map (drop (3 - 1)) [[7, 1, 2, 9], [8, 1, 2]])"
    by simp_all
  then have "size_t_sub 3 1 = 2"
    and "split_prompts 3 [[7, 1, 2, 9], [8, 1, 2]] = Inr ([[7, 1], [8, 1]], [[2, 9], [2]])"
    by (simp_all add: numeral_2_eq_2)
  with a b show ?thesis by simp
qed

lemma prefill_validated:
  assumes each: "\<forall>p\<in>set prompts. si < pl \<and> pl \<le> length p"
    and ne: "prompts \<noteq> []"
    and span: "logits_span_vocabulary co k replica"
  shows "prefill co k replica options prompts si pl state =
     Inr (if pl = 1 then prompts else map (drop (pl - 1)) prompts,
          if pl = 1 then state
          else fst (co_forward_prompt co (make_sequence_inputs (map (take (pl - 1)) prompts)) state),
          if pl \<noteq> 1 \<and> opt_return_no_speech_prob options \<and> si \<noteq> pl - 1
          then map (\<lambda>row. row ! replica_no_speech_id replica)
                 (k_softmax k (co_compute_logits_for_steps co
                    (snd (co_forward_prompt co (make_sequence_inputs (map (take (pl - 1)) prompts)) state))
                    (replicate (length prompts) si)))
          else [],
          if pl = 1 then 0 else int (pl - 1))"
proof (cases "pl = 1")
  case True
  then show ?thesis by (simp add: prefill_def)
next
  case False
  from each ne have pos: "0 < pl" by (cases prompts) auto
  have sub: "size_t_sub pl 1 = pl - 1" using pos by (rule size_t_sub_pos)
  have "\<forall>p\<in>set prompts. 1 \<le> pl \<and> pl \<le> length p" using each by fastforce
  then have split: "split_prompts pl prompts
      = Inr (map (take (pl - 1)) prompts, map (drop (pl - 1)) prompts)"
    by (rule split_prompts_all)
  have pne: "map (take (pl - 1)) prompts \<noteq> []" using ne by simp
  have plen: "\<forall>row\<in>set (map (take (pl - 1)) prompts). length row = pl - 1"
    using each by fastforce
  note dm = dim1_make_sequence_inputs [OF pne plen]
  from dm have d: "dim1 (make_sequence_inputs (map (take (pl - 1)) prompts)) = pl - 1"
    by (rule conjunct1)
  from dm have m: "make_sequence_inputs (map (take (pl - 1)) prompts) = map (take (pl - 1)) prompts"
    by (rule conjunct2)
  have rows: "\<forall>row\<in>set (k_softmax k (co_compute_logits_for_steps co outputs ids)).
      replica_no_speech_id replica < length row" for outputs ids
    using span unfolding logits_span_vocabulary_def by blast
  show ?thesis
    using False rows d m sub split
    by (simp add: prefill_def Let_def get_no_speech_probs_from_logits_def split: prod.splits)
qed

lemma generate_setup_validated:
  assumes chk: "check_prompts prompts (replica_sot_id replica) (replica_no_timestamps_id replica)
                  (0, 0) = Inr (si, pl)"
    and ne: "prompts \<noteq> []"
    and ord: "replica_sot_id replica \<le> replica_no_timestamps_id replica"
    and span: "logits_span_vocabulary co k replica"
  shows "generate_setup co k replica features prompts options =
     Inr (if pl = 1 then memory_state co features
          else fst (co_forward_prompt co (make_sequence_inputs (map (take (pl - 1)) prompts))
                      (memory_state co features)),
          if pl = 1 then prompts else map (drop (pl - 1)) prompts,
          make_decoding_options replica options (if pl = 1 then 0 else int (pl - 1))
            ((if opt_return_no_speech_prob options \<and> si = pl - 1
              then [GetNoSpeechProbs (replica_no_speech_id replica)] else [])
             @ (if prompts ! 0 ! (pl - 1) \<noteq> replica_no_timestamps_id replica
                then [ApplyTimestampRules (make_timestamp_rules replica options)] else [])),
          if pl \<noteq> 1 \<and> opt_return_no_speech_prob options \<and> si \<noteq> pl - 1
          then map (\<lambda>row. row ! replica_no_speech_id replica)
                 (k_softmax k (co_compute_logits_for_steps co
                    (snd (co_forward_prompt co (make_sequence_inputs (map (take (pl - 1)) prompts))
                            (memory_state co features)))
                    (replicate (length prompts) si)))
          else [],
          opt_return_no_speech_prob options \<and> si = pl - 1)"
proof -
  have each: "\<forall>p\<in>set prompts. si < pl \<and> pl \<le> length p"
  proof
    fix p assume "p \<in> set prompts"
    from validated_batch [OF chk ne this]
    show "si < pl \<and> pl \<le> length p"
      using sot_before_prompt_length ord by blast
  qed
  from each ne have pos: "0 < pl" by (cases prompts) auto
  have sub: "size_t_sub pl 1 = pl - 1" using pos by (rule size_t_sub_pos)
  from ne have "prompts ! 0 \<in> set prompts" by (cases prompts) auto
  with each pos have inside: "pl - 1 < length (prompts ! 0)" by fastforce
  show ?thesis
    using inside sub chk
    by (simp add: generate_setup_def prefill_validated [OF each ne span] memory_state_def Let_def)
qed

text \<open>
  The order \<open>sot_id \<le> no_timestamps_id\<close> of the two special tokens cannot be dropped
  from what follows. With a vocabulary where SOT lies above \<open>no_timestamps_id\<close> the
  loop of \<open>get_prompt_length\<close> stops at SOT itself, the prompt \<open>[sot_id]\<close> has prompt
  length 0, \<open>prompt_length - 1\<close> wraps around and the split leaves the prompt.
\<close>

lemma prompt_length_zero_without_order:
  "check_prompts [[2]] 2 1 (0, 0) = Inr (0, 0)
   \<and> size_t_sub 0 1 = 2 ^ 64 - 1
   \<and> split_prompts 0 [[2]] = Inl Undefined_Behaviour"
proof -
  have "check_prompts [[2]] 2 1 (0, 0) = Inr (0, 0)" by code_simp
  moreover have "size_t_sub 0 1 = 2 ^ 64 - 1" by (simp add: size_t_sub_def)
  moreover have "split_prompts 0 [[2]] = Inl Undefined_Behaviour"
    by (simp add: split_prompt_def)
  ultimately show ?thesis by simp
qed

text \<open>
  Claim C6. In \<open>generate\<close>, for a validated batch of a vocabulary with
  \<open>sot_id \<le> no_timestamps_id\<close>: if \<open>prompt_length = 1\<close> no prefill occurs (the decoding loop
  gets the state that holds the encoder output only), the start tokens are the full
  prompts and the start step is 0; otherwise the prefix of row \<open>i\<close> is
  \<open>prompts[i][0 .. prompt_length - 2]\<close>, its start tokens are
  \<open>prompts[i][prompt_length - 1 ..]\<close>, the decoding loop gets the state left by the
  decoder prefill run on the prefixes, and the start step is the prefix length
  \<open>prompt_length - 1\<close>.
\<close>

theorem generate_prefill_split:
  assumes "check_prompts prompts (replica_sot_id replica) (replica_no_timestamps_id replica)
             (0, 0) = Inr (si, pl)"
    and "prompts \<noteq> []"
    and "replica_sot_id replica \<le> replica_no_timestamps_id replica"
    and "logits_span_vocabulary co k replica"
  shows "\<exists>state start_tokens decoding_options eager deferred.
           generate_setup co k replica features prompts options
             = Inr (state, start_tokens, decoding_options, eager, deferred)
           \<and> (if pl = 1 then
                 state = memory_state co features \<and> start_tokens = prompts
                 \<and> dec_start_step decoding_options = 0
               else
                 (\<exists>prefix. length prefix = length prompts \<and> length start_tokens = length prompts
                    \<and> (\<forall>i<length prompts.
                          prefix ! i = map (\<lambda>j. prompts ! i ! j) [0..<pl - 1]
                          \<and> start_tokens ! i
                              = map (\<lambda>j. prompts ! i ! j) [pl - 1..<length (prompts ! i)])
                    \<and> state = fst (co_forward_prompt co (make_sequence_inputs prefix)
                                     (memory_state co features))
                    \<and> (\<forall>row\<in>set prefix. length row = pl - 1)
                    \<and> dec_start_step decoding_options = int (pl - 1)))"
proof -
  have each: "\<forall>p\<in>set prompts. si < pl \<and> pl \<le> length p"
  proof
    fix p assume "p \<in> set prompts"
    from validated_batch [OF assms(1) assms(2) this]
    show "si < pl \<and> pl \<le> length p"
      using sot_before_prompt_length assms(3) by blast
  qed
  have tk: "take (pl - 1) p = map (\<lambda>j. p ! j) [0..<pl - 1]" if "p \<in> set prompts" for p
  proof -
    from each that have "pl - 1 \<le> length p" by fastforce
    then show ?thesis by (intro nth_equalityI) simp_all
  qed
  have dr: "drop (pl - 1) p = map (\<lambda>j. p ! j) [pl - 1..<length p]" for p :: "nat list"
    by (rule nth_equalityI) simp_all
  have plen: "\<forall>row\<in>set (map (take (pl - 1)) prompts). length row = pl - 1"
    using each by fastforce
  show ?thesis
  proof (cases "pl = 1")
    case True
    then show ?thesis
      unfolding generate_setup_validated [OF assms]
      by (simp add: make_decoding_options_def Let_def)
  next
    case False
    have "length (map (take (pl - 1)) prompts) = length prompts
        \<and> length (map (drop (pl - 1)) prompts) = length prompts
        \<and> (\<forall>i<length prompts.
              map (take (pl - 1)) prompts ! i = map (\<lambda>j. prompts ! i ! j) [0..<pl - 1]
              \<and> map (drop (pl - 1)) prompts ! i
                  = map (\<lambda>j. prompts ! i ! j) [pl - 1..<length (prompts ! i)])"
      using tk dr by simp
    with False plen show ?thesis
      unfolding generate_setup_validated [OF assms]
      by (auto simp: make_decoding_options_def Let_def
            intro!: exI [of _ "map (take (pl - 1)) prompts"])
  qed
qed

lemma toy_span: "logits_span_vocabulary toy_collaborators toy_kernels toy_replica"
  by (simp add: logits_span_vocabulary_def toy_collaborators_def toy_kernels_def
      toy_replica_def toy_row_def)

lemma list_of_length_two: "length xs = 2 \<Longrightarrow> xs = [xs ! 0, xs ! 1]"
  by (cases xs; cases "tl xs") auto

theorem generate_prefill_split_witness:
  "\<exists>decoding_options eager deferred.
     generate_setup toy_collaborators toy_kernels toy_replica [0, 0]
         [[0, 2, 3, 0], [0, 2, 4]] toy_options
       = Inr ([[[0, 2], [0, 2]]], [[3, 0], [4]], decoding_options, eager, deferred)
     \<and> dec_start_step decoding_options = 2"
proof -
  have chk: "check_prompts [[0, 2, 3, 0], [0, 2, 4]] (replica_sot_id toy_replica)
      (replica_no_timestamps_id toy_replica) (0, 0) = Inr (1, 3)"
    by (simp add: toy_replica_def) code_simp
  have ne: "[[0, 2, 3, 0], [0, 2, 4]] \<noteq> ([] :: nat list list)" by simp
  have ord: "replica_sot_id toy_replica \<le> replica_no_timestamps_id toy_replica"
    by (simp add: toy_replica_def)
  from generate_prefill_split [OF chk ne ord toy_span, of "[0, 0]" toy_options]
  obtain state start_tokens decoding_options eager deferred prompt_tokens
    where res: "generate_setup toy_collaborators toy_kernels toy_replica [0, 0]
          [[0, 2, 3, 0], [0, 2, 4]] toy_options
        = Inr (state, start_tokens, decoding_options, eager, deferred)"
      and lp: "length prompt_tokens = 2" and ls: "length start_tokens = 2"
      and rows: "\<forall>i<2. prompt_tokens ! i = map (\<lambda>j. [[0, 2, 3, 0], [0, 2, 4]] ! i ! j) [0..<3 - 1]
          \<and> start_tokens ! i
              = map (\<lambda>j. [[0, 2, 3, 0], [0, 2, 4]] ! i ! j) [3 - 1..<length ([[0, 2, 3, 0], [0, 2, 4 :: nat]] ! i)]"
      and st: "state = fst (co_forward_prompt toy_collaborators (make_sequence_inputs prompt_tokens)
          (memory_state toy_collaborators [0, 0]))"
      and step: "dec_start_step decoding_options = int (3 - 1)"
    by auto
  have e0: "map (\<lambda>j. [[0, 2, 3, 0], [0, 2, 4]] ! 0 ! j) [0..<3 - 1] = [0, 2 :: nat]"
    and e1: "map (\<lambda>j. [[0, 2, 3, 0], [0, 2, 4]] ! 1 ! j) [0..<3 - 1] = [0, 2 :: nat]"
    and f0: "map (\<lambda>j. [[0, 2, 3, 0], [0, 2, 4]] ! 0 ! j)
               [3 - 1..<length ([[0, 2, 3, 0], [0, 2, 4 :: nat]] ! 0)] = [3, 0 :: nat]"
    and f1: "map (\<lambda>j. [[0, 2, 3, 0], [0, 2, 4]] ! 1 ! j)
               [3 - 1..<length ([[0, 2, 3, 0], [0, 2, 4 :: nat]] ! 1)] = [4 :: nat]"
    by code_simp+
  have r0: "prompt_tokens ! 0 = map (\<lambda>j. [[0, 2, 3, 0], [0, 2, 4]] ! 0 ! j) [0..<3 - 1]
      \<and> start_tokens ! 0
          = map (\<lambda>j. [[0, 2, 3, 0], [0, 2, 4]] ! 0 ! j)
              [3 - 1..<length ([[0, 2, 3, 0], [0, 2, 4 :: nat]] ! 0)]"
    by (rule rows [rule_format]) simp
  have r1: "prompt_tokens ! 1 = map (\<lambda>j. [[0, 2, 3, 0], [0, 2, 4]] ! 1 ! j) [0..<3 - 1]
      \<and> start_tokens ! 1
          = map (\<lambda>j. [[0, 2, 3, 0], [0, 2, 4]] ! 1 ! j)
              [3 - 1..<length ([[0, 2, 3, 0], [0, 2, 4 :: nat]] ! 1)]"
    by (rule rows [rule_format]) simp
  have "prompt_tokens ! 0 = [0, 2]" and "prompt_tokens ! 1 = [0, 2]"
    and "start_tokens ! 0 = [3, 0]" and "start_tokens ! 1 = [4]"
    by (simp_all only: r0 r1 e0 e1 f0 f1)
  with list_of_length_two [OF lp] list_of_length_two [OF ls]
  have p: "prompt_tokens = [[0, 2], [0, 2]]" and s: "start_tokens = [[3, 0], [4]]"
    by simp_all
  have "make_sequence_inputs [[0, 2], [0, 2 :: nat]] = [[0, 2], [0, 2]]"
    by (simp add: make_sequence_inputs_def)
  with st p have "state = [[[0, 2], [0, 2]]]"
    by (simp add: toy_collaborators_def memory_state_def)
  with res s step show ?thesis by simp
qed

section \<open>The suppression list: proofs\<close>

lemma expand_suppress_tokens_concat:
  "expand_suppress_tokens suppress_tokens suppress_ids disable_ids =
     disable_ids
     @ concat (map (\<lambda>i. if i \<ge> 0 then [nat i] else if i = - 1 then suppress_ids else [])
                 suppress_tokens)"
  by (induction suppress_tokens arbitrary: disable_ids) simp_all

lemma set_expand_suppress_tokens:
  "set (expand_suppress_tokens suppress_tokens suppress_ids disable_ids) =
     set disable_ids
     \<union> {n. \<exists>i. i \<in> set suppress_tokens \<and> 0 \<le> i \<and> n = nat i}
     \<union> (if - 1 \<in> set suppress_tokens then set suppress_ids else {})"
  by (induction suppress_tokens arbitrary: disable_ids) auto

text \<open>
  Claim C8, as stated: exactly the positive ids of \<open>suppress_tokens\<close> are copied into
  \<open>disable_ids\<close>, together with the configuration's \<open>suppress_ids\<close> if \<open>- 1\<close> is
  present. The code tests \<^verbatim>\<open>id >= 0\<close>, so the id 0 is copied too: with
  \<open>suppress_tokens = [0]\<close> the list \<open>disable_ids\<close> is \<open>[0]\<close>, which the statement
  leaves empty.
\<close>

theorem suppress_tokens_positive_counterexample:
  "set (dec_disable_ids (make_decoding_options toy_replica
          (toy_options\<lparr>opt_suppress_tokens := [0]\<rparr>) 0 []))
   \<noteq> spec_disable_ids [0] (replica_suppress_ids toy_replica)"
  by (simp add: make_decoding_options_def spec_disable_ids_def toy_options_def Let_def)

text \<open>
  Claim C8, amended. In \<open>generate\<close>, \<open>disable_ids\<close> is built from \<open>suppress_tokens\<close>
  in one pass: every id that is not negative (0 included) is copied, every
  occurrence of the sentinel \<open>- 1\<close> appends the configuration's \<open>suppress_ids\<close>, and
  every other negative value contributes nothing. As a set, \<open>disable_ids\<close> holds
  exactly the non-negative ids of the list and, if \<open>- 1\<close> is present, the
  configuration's \<open>suppress_ids\<close>.
\<close>

theorem suppress_tokens_expansion:
  "dec_disable_ids (make_decoding_options replica options start_step processors) =
     concat (map (\<lambda>i. if i \<ge> 0 then [nat i]
                       else if i = - 1 then replica_suppress_ids replica else [])
               (opt_suppress_tokens options))
   \<and> set (dec_disable_ids (make_decoding_options replica options start_step processors)) =
       {n. \<exists>i. i \<in> set (opt_suppress_tokens options) \<and> 0 \<le> i \<and> n = nat i}
       \<union> (if - 1 \<in> set (opt_suppress_tokens options) then set (replica_suppress_ids replica)
          else {})"
  by (simp add: make_decoding_options_def Let_def expand_suppress_tokens_concat [of _ _ "[]"]
      set_expand_suppress_tokens [of _ _ "[]", simplified, symmetric]
      del: set_concat)

section \<open>Timestamp rules: proofs\<close>

lemma add_ids_eq:
  "add_ids b ids dt = dt\<lparr>dt_added := dt_added dt @ map (Pair b) ids\<rparr>"
  by (induction ids arbitrary: dt) (simp_all add: disable_tokens_add_def)

lemma apply_row_eq:
  "apply_row r call b (dt, chk) =
     (dt\<lparr>dt_added := dt_added dt @ row_adds r call b\<rparr>, chk @ row_check r call b)"
  by (simp add: apply_row_def row_adds_def row_check_def empty_disable_tokens_def
      add_ids_eq disable_tokens_add_def Let_def)

lemma apply_rows_eq:
  "apply_rows r call bs (dt, chk) =
     (dt\<lparr>dt_added := dt_added dt @ concat (map (row_adds r call) bs)\<rparr>,
      chk @ concat (map (row_check r call) bs))"
  by (induction bs arbitrary: dt chk) (simp_all add: apply_row_eq)

lemma first_pass_eq:
  "first_pass r call dt =
     (dt\<lparr>dt_added := dt_added dt
           @ concat (map (row_adds r call) [0..<length (dt_logits dt)])\<rparr>,
      concat (map (row_check r call) [0..<length (dt_logits dt)]))"
  by (simp add: first_pass_def apply_rows_eq)

lemma row_adds_first_step:
  assumes "call_step call = int (call_sample_begin call b)"
  shows "row_adds r call b =
     map (Pair b) ([rules_no_timestamps_id r] @ [0..<rules_timestamp_begin_id r]
                   @ [size_t_inc (rules_max_initial_timestamp_id r)
                      ..<rules_timestamp_end_id r + 1])"
    and "row_check r call b = []"
  using assms
  by (simp_all add: apply_row_def row_adds_def row_check_def empty_disable_tokens_def
      add_ids_eq disable_tokens_add_def Let_def)


lemma row_adds_fst: "p \<in> set (row_adds r call b) \<Longrightarrow> fst p = b"
  by (auto simp: apply_row_def row_adds_def empty_disable_tokens_def
      add_ids_eq disable_tokens_add_def Let_def split: if_splits)

lemma row_check_subset: "set (row_check r call b) \<subseteq> {b}"
  by (auto simp: apply_row_def row_check_def empty_disable_tokens_def
      add_ids_eq disable_tokens_add_def Let_def split: if_splits)

lemma disabled_ids_append:
  "disabled_ids (xs @ ys) b = disabled_ids xs b \<union> disabled_ids ys b"
  by (auto simp: disabled_ids_def)

lemma disabled_ids_map_Pair:
  "disabled_ids (map (Pair c) ids) b = (if b = c then set ids else {})"
  by (auto simp: disabled_ids_def)

lemma disabled_ids_rows:
  "disabled_ids (concat (map (row_adds r call) bs)) b =
     (if b \<in> set bs then disabled_ids (row_adds r call b) b else {})"
proof (induction bs)
  case Nil
  show ?case by (simp add: disabled_ids_def)
next
  case (Cons c bs)
  have other: "disabled_ids (row_adds r call c) b = {}" if "c \<noteq> b"
    using that row_adds_fst [of "(b, _)" r call c] by (auto simp: disabled_ids_def)
  show ?case
    using Cons.IH other by (auto simp: disabled_ids_append)
qed

lemma mass_check_eq:
  "mass_check bld k r log_probs chk dt =
     dt\<lparr>dt_added := dt_added dt
          @ concat (map (\<lambda>b. if sample_timestamp_dispatch bld k r log_probs b
                               then map (Pair b) [0..<rules_timestamp_begin_id r] else [])
                      chk)\<rparr>"
  by (induction chk arbitrary: dt) (simp_all add: add_ids_eq)

lemma disabled_ids_mass_check:
  "disabled_ids (concat (map (\<lambda>b. if sample_timestamp_dispatch bld k r log_probs b
                                   then map (Pair b) [0..<rules_timestamp_begin_id r] else [])
                          chk)) b =
     (if b \<in> set chk \<and> sample_timestamp_dispatch bld k r log_probs b
      then {0..<rules_timestamp_begin_id r} else {})"
  by (induction chk) (auto simp: disabled_ids_append disabled_ids_map_Pair disabled_ids_def)

lemma apply_timestamp_rules_eq:
  "apply_timestamp_rules bld k r call dt =
     (let n = length (dt_logits dt);
          first = concat (map (row_adds r call) [0..<n]);
          chk = concat (map (row_check r call) [0..<n]);
          masked = mask_logits (k_disable_value k) (dt_added dt @ first) (dt_logits dt);
          log_probs = k_log_softmax k masked;
          second = concat (map (\<lambda>b. if sample_timestamp_dispatch bld k r log_probs b
                                        then map (Pair b) [0..<rules_timestamp_begin_id r]
                                        else [])
                               chk)
      in if chk \<noteq> []
         then dt\<lparr>dt_logits := masked, dt_added := dt_added dt @ first @ second\<rparr>
         else dt\<lparr>dt_added := dt_added dt @ first\<rparr>)"
  by (simp add: apply_timestamp_rules_def first_pass_eq mass_check_eq disable_tokens_apply_def
      Let_def)

lemma disabled_ids_apply_timestamp_rules:
  assumes "b < length (dt_logits dt)"
  shows "disabled_ids (dt_added (apply_timestamp_rules bld k r call dt)) b =
     disabled_ids (dt_added dt) b \<union> disabled_ids (row_adds r call b) b
     \<union> (if b \<in> set (row_check r call b)
           \<and> sample_timestamp_dispatch bld k r
                (k_log_softmax k
                   (mask_logits (k_disable_value k)
                      (dt_added dt @ concat (map (row_adds r call) [0..<length (dt_logits dt)]))
                      (dt_logits dt))) b
        then {0..<rules_timestamp_begin_id r} else {})"
proof -
  have chk: "b \<in> set (concat (map (row_check r call) [0..<length (dt_logits dt)]))
      \<longleftrightarrow> b \<in> set (row_check r call b)"
    using assms row_check_subset by fastforce
  then have chk': "(\<exists>x\<in>{0..<length (dt_logits dt)}. b \<in> set (row_check r call x))
      \<longleftrightarrow> b \<in> set (row_check r call b)"
    by simp
  have rows: "disabled_ids (concat (map (row_adds r call) [0..<length (dt_logits dt)])) b
      = disabled_ids (row_adds r call b) b"
    using assms by (simp add: disabled_ids_rows)
  show ?thesis
  proof (cases "concat (map (row_check r call) [0..<length (dt_logits dt)]) = []")
    case True
    with chk have "b \<notin> set (row_check r call b)" by simp
    then show ?thesis
      unfolding apply_timestamp_rules_eq Let_def using True
      by (simp add: disabled_ids_append rows)
  next
    case False
    then show ?thesis
      unfolding apply_timestamp_rules_eq Let_def
      by (simp add: disabled_ids_append disabled_ids_mass_check rows chk' Un_assoc)
  qed
qed

lemma processors_of_setup:
  "dec_logits_processors (make_decoding_options replica options start_step processors) = processors"
  by (simp add: make_decoding_options_def Let_def)

lemma size_t_inc_le: "size_t_inc m \<le> m + 1"
  by (simp add: size_t_inc_def mod_le_divisor le_trans [OF mod_less_eq_dividend])

text \<open>
  Claim C1. For a validated batch the processors handed to the decoding loop are the
  no-speech processor (when it is deferred) followed by the timestamp rules, and the
  timestamp rules are in the list if and only if
  \<open>prompts[0][prompt_length - 1] \<noteq> no_timestamps_id\<close>. The rules installed hold the
  replica's \<open>eot_id\<close> and \<open>no_timestamps_id\<close>,
  \<open>timestamp_begin_id = no_timestamps_id + 1\<close>,
  \<open>timestamp_end_id = vocabulary_size - 1\<close> and
  \<open>max_initial_timestamp_id = timestamp_begin_id + max_initial_timestamp_index\<close>, each
  computed in \<^verbatim>\<open>size_t\<close>, that is modulo \<open>2 ^ 64\<close>. For every row whose first generated
  step it is (\<open>step = sample_begin\<close>), rules with an end id below the largest \<^verbatim>\<open>size_t\<close>
  value (the loop \<^verbatim>\<open>i <= _timestamp_end_id\<close> then ends) disable \<open>no_timestamps_id\<close>,
  every id in \<open>[0, timestamp_begin_id)\<close> and every id from the \<^verbatim>\<open>size_t\<close> successor of
  \<open>max_initial_timestamp_id\<close> up to \<open>timestamp_end_id\<close>, and no other id. This holds
  every id in \<open>(max_initial_timestamp_id, timestamp_end_id]\<close>, so an id up to
  \<open>timestamp_end_id\<close> that stays enabled is a timestamp id not above
  \<open>max_initial_timestamp_id\<close>.
\<close>

theorem timestamp_rules_first_step:
  "(check_prompts prompts (replica_sot_id replica) (replica_no_timestamps_id replica) (0, 0)
       = Inr (si, pl)
     \<and> prompts \<noteq> [] \<and> replica_sot_id replica \<le> replica_no_timestamps_id replica
     \<and> logits_span_vocabulary co k replica \<longrightarrow>
     (\<exists>state start_tokens decoding_options eager deferred.
        generate_setup co k replica features prompts options
          = Inr (state, start_tokens, decoding_options, eager, deferred)
        \<and> ((\<exists>r. ApplyTimestampRules r \<in> set (dec_logits_processors decoding_options))
             \<longleftrightarrow> prompts ! 0 ! (pl - 1) \<noteq> replica_no_timestamps_id replica)
        \<and> dec_logits_processors decoding_options
            = (if opt_return_no_speech_prob options \<and> si = pl - 1
               then [GetNoSpeechProbs (replica_no_speech_id replica)] else [])
              @ (if prompts ! 0 ! (pl - 1) \<noteq> replica_no_timestamps_id replica
                 then [ApplyTimestampRules
                         \<lparr>rules_eot_id = replica_eot_id replica,
                          rules_no_timestamps_id = replica_no_timestamps_id replica,
                          rules_timestamp_begin_id =
                            (replica_no_timestamps_id replica + 1) mod 2 ^ 64,
                          rules_timestamp_end_id =
                            (if 1 \<le> replica_vocabulary_size replica
                             then replica_vocabulary_size replica - 1 else 2 ^ 64 - 1),
                          rules_max_initial_timestamp_id =
                            ((replica_no_timestamps_id replica + 1) mod 2 ^ 64
                             + opt_max_initial_timestamp_index options) mod 2 ^ 64\<rparr>]
                 else [])))
   \<and> (b < length (dt_logits dt) \<and> call_step call = int (call_sample_begin call b)
       \<and> rules_timestamp_end_id r < 2 ^ 64 - 1 \<longrightarrow>
        disabled_ids (dt_added (apply_timestamp_rules bld k r call dt)) b
          = disabled_ids (dt_added dt) b
            \<union> {rules_no_timestamps_id r}
            \<union> {0..<rules_timestamp_begin_id r}
            \<union> {(rules_max_initial_timestamp_id r + 1) mod 2 ^ 64..rules_timestamp_end_id r}
        \<and> {rules_no_timestamps_id r} \<union> {0..<rules_timestamp_begin_id r}
            \<union> {i. rules_max_initial_timestamp_id r < i \<and> i \<le> rules_timestamp_end_id r}
            \<subseteq> disabled_ids (dt_added (apply_timestamp_rules bld k r call dt)) b
        \<and> (\<forall>i. i \<le> rules_timestamp_end_id r
                 \<and> i \<notin> disabled_ids (dt_added (apply_timestamp_rules bld k r call dt)) b
               \<longrightarrow> rules_timestamp_begin_id r \<le> i \<and> i \<le> rules_max_initial_timestamp_id r))"
proof -
  let ?installed = "\<lparr>rules_eot_id = replica_eot_id replica,
      rules_no_timestamps_id = replica_no_timestamps_id replica,
      rules_timestamp_begin_id = (replica_no_timestamps_id replica + 1) mod 2 ^ 64,
      rules_timestamp_end_id =
        (if 1 \<le> replica_vocabulary_size replica
         then replica_vocabulary_size replica - 1 else 2 ^ 64 - 1),
      rules_max_initial_timestamp_id =
        ((replica_no_timestamps_id replica + 1) mod 2 ^ 64
         + opt_max_initial_timestamp_index options) mod 2 ^ 64\<rparr>"
  let ?D = "disabled_ids (dt_added (apply_timestamp_rules bld k r call dt)) b"
  have built: "make_timestamp_rules replica options = ?installed"
    by (simp add: make_timestamp_rules_def size_t_inc_def size_t_add_def size_t_sub_def Let_def)
  have installed: "check_prompts prompts (replica_sot_id replica)
         (replica_no_timestamps_id replica) (0, 0) = Inr (si, pl)
     \<and> prompts \<noteq> [] \<and> replica_sot_id replica \<le> replica_no_timestamps_id replica
     \<and> logits_span_vocabulary co k replica \<longrightarrow>
     (\<exists>state start_tokens decoding_options eager deferred.
        generate_setup co k replica features prompts options
          = Inr (state, start_tokens, decoding_options, eager, deferred)
        \<and> ((\<exists>r. ApplyTimestampRules r \<in> set (dec_logits_processors decoding_options))
             \<longleftrightarrow> prompts ! 0 ! (pl - 1) \<noteq> replica_no_timestamps_id replica)
        \<and> dec_logits_processors decoding_options
            = (if opt_return_no_speech_prob options \<and> si = pl - 1
               then [GetNoSpeechProbs (replica_no_speech_id replica)] else [])
              @ (if prompts ! 0 ! (pl - 1) \<noteq> replica_no_timestamps_id replica
                 then [ApplyTimestampRules ?installed] else []))"
  proof
    assume h: "check_prompts prompts (replica_sot_id replica)
         (replica_no_timestamps_id replica) (0, 0) = Inr (si, pl)
     \<and> prompts \<noteq> [] \<and> replica_sot_id replica \<le> replica_no_timestamps_id replica
     \<and> logits_span_vocabulary co k replica"
    then have a: "check_prompts prompts (replica_sot_id replica)
        (replica_no_timestamps_id replica) (0, 0) = Inr (si, pl)"
      and b: "prompts \<noteq> []"
      and c: "replica_sot_id replica \<le> replica_no_timestamps_id replica"
      and d: "logits_span_vocabulary co k replica"
      by simp_all
    show "\<exists>state start_tokens decoding_options eager deferred.
        generate_setup co k replica features prompts options
          = Inr (state, start_tokens, decoding_options, eager, deferred)
        \<and> ((\<exists>r. ApplyTimestampRules r \<in> set (dec_logits_processors decoding_options))
             \<longleftrightarrow> prompts ! 0 ! (pl - 1) \<noteq> replica_no_timestamps_id replica)
        \<and> dec_logits_processors decoding_options
            = (if opt_return_no_speech_prob options \<and> si = pl - 1
               then [GetNoSpeechProbs (replica_no_speech_id replica)] else [])
              @ (if prompts ! 0 ! (pl - 1) \<noteq> replica_no_timestamps_id replica
                 then [ApplyTimestampRules ?installed] else [])"
      unfolding generate_setup_validated [OF a b c d] built
      by (auto simp: processors_of_setup)
  qed
  have first: "b < length (dt_logits dt) \<and> call_step call = int (call_sample_begin call b)
       \<and> rules_timestamp_end_id r < 2 ^ 64 - 1 \<longrightarrow>
        ?D = disabled_ids (dt_added dt) b
            \<union> {rules_no_timestamps_id r}
            \<union> {0..<rules_timestamp_begin_id r}
            \<union> {(rules_max_initial_timestamp_id r + 1) mod 2 ^ 64..rules_timestamp_end_id r}
        \<and> {rules_no_timestamps_id r} \<union> {0..<rules_timestamp_begin_id r}
            \<union> {i. rules_max_initial_timestamp_id r < i \<and> i \<le> rules_timestamp_end_id r}
            \<subseteq> ?D
        \<and> (\<forall>i. i \<le> rules_timestamp_end_id r \<and> i \<notin> ?D
               \<longrightarrow> rules_timestamp_begin_id r \<le> i \<and> i \<le> rules_max_initial_timestamp_id r)"
  proof
    assume h: "b < length (dt_logits dt) \<and> call_step call = int (call_sample_begin call b)
       \<and> rules_timestamp_end_id r < 2 ^ 64 - 1"
    then have lt: "b < length (dt_logits dt)"
      and st: "call_step call = int (call_sample_begin call b)" by simp_all
    have start: "(rules_max_initial_timestamp_id r + 1) mod 2 ^ 64
        \<le> rules_max_initial_timestamp_id r + 1"
      using size_t_inc_le [of "rules_max_initial_timestamp_id r"] by (simp add: size_t_inc_def)
    have eq: "?D = disabled_ids (dt_added dt) b
            \<union> {rules_no_timestamps_id r}
            \<union> {0..<rules_timestamp_begin_id r}
            \<union> {(rules_max_initial_timestamp_id r + 1) mod 2 ^ 64..rules_timestamp_end_id r}"
    proof -
      have "disabled_ids (row_adds r call b) b
          = set ([rules_no_timestamps_id r] @ [0..<rules_timestamp_begin_id r]
                 @ [size_t_inc (rules_max_initial_timestamp_id r)
                    ..<rules_timestamp_end_id r + 1])"
        by (simp only: row_adds_first_step(1) [OF st] disabled_ids_map_Pair simp_thms if_True)
      also have "\<dots> = {rules_no_timestamps_id r} \<union> {0..<rules_timestamp_begin_id r}
          \<union> {(rules_max_initial_timestamp_id r + 1) mod 2 ^ 64..rules_timestamp_end_id r}"
        by (auto simp del: upt_Suc simp add: size_t_inc_def)
      finally have rows: "disabled_ids (row_adds r call b) b
          = {rules_no_timestamps_id r} \<union> {0..<rules_timestamp_begin_id r}
            \<union> {(rules_max_initial_timestamp_id r + 1) mod 2 ^ 64..rules_timestamp_end_id r}" .
      have none: "b \<notin> set (row_check r call b)"
        by (simp add: row_adds_first_step(2) [OF st])
      show ?thesis
        unfolding disabled_ids_apply_timestamp_rules [OF lt] rows
        using none by (simp add: Un_assoc)
    qed
    have sub: "{rules_no_timestamps_id r} \<union> {0..<rules_timestamp_begin_id r}
            \<union> {i. rules_max_initial_timestamp_id r < i \<and> i \<le> rules_timestamp_end_id r}
            \<subseteq> ?D"
      unfolding eq using start by auto
    have "rules_timestamp_begin_id r \<le> i \<and> i \<le> rules_max_initial_timestamp_id r"
      if "i \<le> rules_timestamp_end_id r" and "i \<notin> ?D" for i
    proof -
      from that(2) have "i \<notin> {0..<rules_timestamp_begin_id r}"
        and "i \<notin> {(rules_max_initial_timestamp_id r + 1) mod 2 ^ 64..rules_timestamp_end_id r}"
        unfolding eq by simp_all
      with that(1) have "rules_timestamp_begin_id r \<le> i"
        and "i < (rules_max_initial_timestamp_id r + 1) mod 2 ^ 64"
        by simp_all
      with start show ?thesis by simp
    qed
    with eq sub show "?D = disabled_ids (dt_added dt) b
            \<union> {rules_no_timestamps_id r}
            \<union> {0..<rules_timestamp_begin_id r}
            \<union> {(rules_max_initial_timestamp_id r + 1) mod 2 ^ 64..rules_timestamp_end_id r}
        \<and> {rules_no_timestamps_id r} \<union> {0..<rules_timestamp_begin_id r}
            \<union> {i. rules_max_initial_timestamp_id r < i \<and> i \<le> rules_timestamp_end_id r}
            \<subseteq> ?D
        \<and> (\<forall>i. i \<le> rules_timestamp_end_id r \<and> i \<notin> ?D
               \<longrightarrow> rules_timestamp_begin_id r \<le> i \<and> i \<le> rules_max_initial_timestamp_id r)"
      by blast
  qed
  from installed first show ?thesis by (rule conjI)
qed

lemma toy_check_prompts:
  "check_prompts [[0, 2, 3, 0], [0, 2, 4]] (replica_sot_id toy_replica)
     (replica_no_timestamps_id toy_replica) (0, 0) = Inr (1, 3)"
  by (simp add: toy_replica_def) code_simp

lemma toy_rules:
  "make_timestamp_rules toy_replica toy_options =
     \<lparr>rules_eot_id = 1, rules_no_timestamps_id = 6, rules_timestamp_begin_id = 7,
      rules_timestamp_end_id = 10, rules_max_initial_timestamp_id = 8\<rparr>"
  by (simp add: make_timestamp_rules_def toy_replica_def toy_options_def size_t_sub_def
      size_t_inc_def size_t_add_def)

theorem timestamp_rules_first_step_witness:
  "(\<exists>state start_tokens decoding_options eager.
      generate_setup toy_collaborators toy_kernels toy_replica [0, 0]
          [[0, 2, 3, 0], [0, 2, 4]] toy_options
        = Inr (state, start_tokens, decoding_options, eager, False)
      \<and> dec_logits_processors decoding_options
          = [ApplyTimestampRules
               \<lparr>rules_eot_id = 1, rules_no_timestamps_id = 6, rules_timestamp_begin_id = 7,
                rules_timestamp_end_id = 10, rules_max_initial_timestamp_id = 8\<rparr>])
   \<and> disabled_ids (dt_added (apply_timestamp_rules toy_build toy_kernels
          \<lparr>rules_eot_id = 1, rules_no_timestamps_id = 6, rules_timestamp_begin_id = 7,
           rules_timestamp_end_id = 10, rules_max_initial_timestamp_id = 8\<rparr> toy_call
          \<lparr>dt_logits = call_logits toy_call, dt_added = []\<rparr>)) 0
       = {0, 1, 2, 3, 4, 5, 6, 9, 10}"
proof -
  let ?R = "\<lparr>rules_eot_id = 1, rules_no_timestamps_id = 6, rules_timestamp_begin_id = 7,
      rules_timestamp_end_id = 10, rules_max_initial_timestamp_id = 8\<rparr>"
  note inst = timestamp_rules_first_step
    [where prompts = "[[0, 2, 3, 0], [0, 2, 4]]" and replica = toy_replica and si = 1 and pl = 3
       and co = toy_collaborators and k = toy_kernels and features = "[0, 0]"
       and options = toy_options and b = 0 and call = toy_call and bld = toy_build
       and r = ?R and dt = "\<lparr>dt_logits = call_logits toy_call, dt_added = []\<rparr>"]
  have ne: "[[0, 2, 3, 0], [0, 2, 4]] \<noteq> ([] :: nat list list)" by simp
  have ord: "replica_sot_id toy_replica \<le> replica_no_timestamps_id toy_replica"
    by (simp add: toy_replica_def)
  from inst [THEN conjunct1, rule_format,
      OF conjI [OF toy_check_prompts conjI [OF ne conjI [OF ord toy_span]]]]
  obtain state start_tokens decoding_options eager deferred where
    res: "generate_setup toy_collaborators toy_kernels toy_replica [0, 0]
          [[0, 2, 3, 0], [0, 2, 4]] toy_options
        = Inr (state, start_tokens, decoding_options, eager, deferred)"
    and procs: "dec_logits_processors decoding_options
        = (if opt_return_no_speech_prob toy_options \<and> (1 :: nat) = 3 - 1
           then [GetNoSpeechProbs (replica_no_speech_id toy_replica)] else [])
          @ (if [[0, 2, 3, 0], [0, 2, 4]] ! 0 ! (3 - 1) \<noteq> replica_no_timestamps_id toy_replica
             then [ApplyTimestampRules
                     \<lparr>rules_eot_id = replica_eot_id toy_replica,
                      rules_no_timestamps_id = replica_no_timestamps_id toy_replica,
                      rules_timestamp_begin_id =
                        (replica_no_timestamps_id toy_replica + 1) mod 2 ^ 64,
                      rules_timestamp_end_id =
                        (if 1 \<le> replica_vocabulary_size toy_replica
                         then replica_vocabulary_size toy_replica - 1 else 2 ^ 64 - 1),
                      rules_max_initial_timestamp_id =
                        ((replica_no_timestamps_id toy_replica + 1) mod 2 ^ 64
                         + opt_max_initial_timestamp_index toy_options) mod 2 ^ 64\<rparr>]
             else [])"
    by blast
  from procs have procs': "dec_logits_processors decoding_options = [ApplyTimestampRules ?R]"
    by (simp add: toy_replica_def toy_options_def)
  have "deferred = False"
    using res generate_setup_validated [OF toy_check_prompts ne ord toy_span, of "[0, 0]" toy_options]
    by simp
  with res procs' have one: "\<exists>state start_tokens decoding_options eager.
      generate_setup toy_collaborators toy_kernels toy_replica [0, 0]
          [[0, 2, 3, 0], [0, 2, 4]] toy_options
        = Inr (state, start_tokens, decoding_options, eager, False)
      \<and> dec_logits_processors decoding_options = [ApplyTimestampRules ?R]"
    by blast
  have pre: "0 < length (dt_logits \<lparr>dt_logits = call_logits toy_call, dt_added = []\<rparr>)
      \<and> call_step toy_call = int (call_sample_begin toy_call 0)
      \<and> rules_timestamp_end_id ?R < 2 ^ 64 - 1"
    by (simp add: toy_call_def)
  have sets: "{6} \<union> {0..<7} \<union> {(8 + 1) mod 2 ^ 64..10} = {0, 1, 2, 3, 4, 5, 6, 9, 10 :: nat}"
    by auto
  from inst [THEN conjunct2, rule_format, OF pre, THEN conjunct1]
  have two: "disabled_ids (dt_added (apply_timestamp_rules toy_build toy_kernels ?R toy_call
          \<lparr>dt_logits = call_logits toy_call, dt_added = []\<rparr>)) 0
       = {0, 1, 2, 3, 4, 5, 6, 9, 10}"
    using sets by (simp add: disabled_ids_def)
  from one two show ?thesis by (rule conjI)
qed

text \<open>
  The option \<open>max_initial_timestamp_index\<close> is a \<^verbatim>\<open>size_t\<close> of the caller's choice. With
  the largest value of the type the sum wraps around to \<open>no_timestamps_id\<close>, and the first
  generated step then disables every timestamp as well: no id of the vocabulary stays
  enabled.
\<close>

lemma max_initial_timestamp_wraps:
  "make_timestamp_rules toy_replica (toy_options\<lparr>opt_max_initial_timestamp_index := 2 ^ 64 - 1\<rparr>)
     = \<lparr>rules_eot_id = 1, rules_no_timestamps_id = 6, rules_timestamp_begin_id = 7,
        rules_timestamp_end_id = 10, rules_max_initial_timestamp_id = 6\<rparr>
   \<and> disabled_ids (row_adds
        \<lparr>rules_eot_id = 1, rules_no_timestamps_id = 6, rules_timestamp_begin_id = 7,
         rules_timestamp_end_id = 10, rules_max_initial_timestamp_id = 6\<rparr> toy_call 0) 0
       = {0..10}"
proof -
  have "make_timestamp_rules toy_replica
      (toy_options\<lparr>opt_max_initial_timestamp_index := 2 ^ 64 - 1\<rparr>)
     = \<lparr>rules_eot_id = 1, rules_no_timestamps_id = 6, rules_timestamp_begin_id = 7,
        rules_timestamp_end_id = 10, rules_max_initial_timestamp_id = 6\<rparr>"
    by (simp add: make_timestamp_rules_def toy_replica_def toy_options_def size_t_sub_def
        size_t_inc_def size_t_add_def)
  moreover have "call_step toy_call = int (call_sample_begin toy_call 0)"
    by (simp add: toy_call_def)
  from row_adds_first_step(1) [OF this]
  have "disabled_ids (row_adds
        \<lparr>rules_eot_id = 1, rules_no_timestamps_id = 6, rules_timestamp_begin_id = 7,
         rules_timestamp_end_id = 10, rules_max_initial_timestamp_id = 6\<rparr> toy_call 0) 0
       = {0..10}"
    by (auto simp: disabled_ids_def size_t_inc_def)
  ultimately show ?thesis by (rule conjI)
qed





lemma take_eq_map_nth: "n \<le> length xs \<Longrightarrow> take n xs = map (\<lambda>i. xs ! i) [0..<n]"
  by (intro nth_equalityI) simp_all

lemma take_drop_eq_map_nth:
  "a \<le> b \<Longrightarrow> b \<le> length xs \<Longrightarrow> take (b - a) (drop a xs) = map (\<lambda>i. xs ! i) [a..<b]"
  by (intro nth_equalityI) simp_all

lemma mask_logits_nth:
  "c < length logits \<Longrightarrow> i < length (logits ! c) \<Longrightarrow>
   mask_logits v added logits ! c ! i = (if (c, i) \<in> set added then v else logits ! c ! i)"
  by (simp add: mask_logits_def)

lemma mask_logits_shape:
  "length (mask_logits v added logits) = length logits
   \<and> (\<forall>c<length logits. length (mask_logits v added logits ! c) = length (logits ! c))"
  by (simp add: mask_logits_def)

lemma should_sample_timestamp_ranges:
  assumes "rules_timestamp_begin_id r \<le> rules_timestamp_end_id r"
    and "rules_timestamp_end_id r + 1 < 2 ^ 64"
    and "rules_timestamp_end_id r < length (log_probs ! b)"
  shows "should_sample_timestamp k r log_probs b \<longleftrightarrow>
     k_logsumexp k (map (\<lambda>i. log_probs ! b ! i)
                      [rules_timestamp_begin_id r..<rules_timestamp_end_id r + 1])
     > k_max k (map (\<lambda>i. log_probs ! b ! i) [0..<rules_timestamp_begin_id r])"
proof -
  have n: "size_t_inc (size_t_sub (rules_timestamp_end_id r) (rules_timestamp_begin_id r))
      = (rules_timestamp_end_id r + 1) - rules_timestamp_begin_id r"
    using assms(1,2) by (simp add: size_t_inc_def size_t_sub_def)
  have tx: "take (rules_timestamp_begin_id r) (log_probs ! b)
      = map (\<lambda>i. log_probs ! b ! i) [0..<rules_timestamp_begin_id r]"
    using assms(1,3) by (intro take_eq_map_nth) simp
  have ts: "take ((rules_timestamp_end_id r + 1) - rules_timestamp_begin_id r)
        (drop (rules_timestamp_begin_id r) (log_probs ! b))
      = map (\<lambda>i. log_probs ! b ! i) [rules_timestamp_begin_id r..<rules_timestamp_end_id r + 1]"
    using assms(1,3) by (intro take_drop_eq_map_nth) simp_all
  show ?thesis
    unfolding should_sample_timestamp_def Let_def n tx ts ..
qed

lemma sample_timestamp_dispatch_eq:
  "tensor_device bld = CPU \<or> with_cuda bld \<Longrightarrow>
   sample_timestamp_dispatch bld k r log_probs b = should_sample_timestamp k r log_probs b"
  by (auto simp: sample_timestamp_dispatch_def)

text \<open>
  Claim C3. Whenever at least one row is marked for the mass check, every disable
  accumulated so far is applied to the logits (each recorded position holds the
  disable value, every other position is unchanged) before the log-softmax is
  computed from them, and for each marked row, with \<open>M\<close> the maximum of the
  log-probabilities over the ids \<open>[0, timestamp_begin_id)\<close> and \<open>S\<close> the logsumexp of the
  log-probabilities over the ids \<open>[timestamp_begin_id, timestamp_end_id]\<close>, the ids
  \<open>[0, timestamp_begin_id)\<close> are additionally disabled if and only if \<open>S > M\<close>; a row
  that is not marked gets no additional disable. (The tensor is on the CPU or the
  build has CUDA; the timestamp range is not empty and lies inside the row.)
\<close>

theorem timestamp_mass_check:
  assumes "tensor_device bld = CPU \<or> with_cuda bld"
    and "rules_timestamp_begin_id r \<le> rules_timestamp_end_id r"
    and "rules_timestamp_end_id r + 1 < 2 ^ 64"
  shows
    "let first = dt_added (fst (first_pass r call dt));
         marked = snd (first_pass r call dt);
         masked = mask_logits (k_disable_value k) first (dt_logits dt);
         log_probs = k_log_softmax k masked;
         final = apply_timestamp_rules bld k r call dt
     in marked \<noteq> [] \<longrightarrow>
          dt_logits final = masked
          \<and> (\<forall>c i. c < length (dt_logits dt) \<and> i < length (dt_logits dt ! c) \<longrightarrow>
                 masked ! c ! i
                   = (if (c, i) \<in> set first then k_disable_value k else dt_logits dt ! c ! i))
          \<and> (\<exists>second. dt_added final = first @ second
                \<and> (\<forall>b. b \<in> set marked \<and> rules_timestamp_end_id r < length (log_probs ! b) \<longrightarrow>
                       disabled_ids second b =
                         (if k_logsumexp k (map (\<lambda>i. log_probs ! b ! i)
                                [rules_timestamp_begin_id r..<rules_timestamp_end_id r + 1])
                             > k_max k (map (\<lambda>i. log_probs ! b ! i)
                                 [0..<rules_timestamp_begin_id r])
                          then {0..<rules_timestamp_begin_id r} else {}))
                \<and> (\<forall>b. b \<notin> set marked \<longrightarrow> disabled_ids second b = {}))"
proof -
  define n where "n = length (dt_logits dt)"
  define first where "first = dt_added dt @ concat (map (row_adds r call) [0..<n])"
  define marked where "marked = concat (map (row_check r call) [0..<n])"
  define masked where "masked = mask_logits (k_disable_value k) first (dt_logits dt)"
  define log_probs where "log_probs = k_log_softmax k masked"
  define second where "second =
    concat (map (\<lambda>b. if sample_timestamp_dispatch bld k r log_probs b
                      then map (Pair b) [0..<rules_timestamp_begin_id r] else [])
              marked)"
  have fp: "dt_added (fst (first_pass r call dt)) = first" "snd (first_pass r call dt) = marked"
    by (simp_all add: first_pass_eq first_def marked_def n_def)
  have final: "apply_timestamp_rules bld k r call dt
      = dt\<lparr>dt_logits := masked, dt_added := first @ second\<rparr>" if "marked \<noteq> []"
    using that
    unfolding apply_timestamp_rules_eq Let_def
      n_def [symmetric] marked_def [symmetric]
    by (simp add: first_def masked_def log_probs_def second_def)
  have entries: "\<forall>c i. c < length (dt_logits dt) \<and> i < length (dt_logits dt ! c) \<longrightarrow>
      masked ! c ! i = (if (c, i) \<in> set first then k_disable_value k else dt_logits dt ! c ! i)"
    unfolding masked_def by (simp add: mask_logits_nth)
  have on_marked: "disabled_ids second b =
      (if k_logsumexp k (map (\<lambda>i. log_probs ! b ! i)
             [rules_timestamp_begin_id r..<rules_timestamp_end_id r + 1])
          > k_max k (map (\<lambda>i. log_probs ! b ! i) [0..<rules_timestamp_begin_id r])
       then {0..<rules_timestamp_begin_id r} else {})"
    if "b \<in> set marked \<and> rules_timestamp_end_id r < length (log_probs ! b)" for b
  proof -
    from that have m: "b \<in> set marked" and len: "rules_timestamp_end_id r < length (log_probs ! b)"
      by simp_all
    have "sample_timestamp_dispatch bld k r log_probs b \<longleftrightarrow>
        k_logsumexp k (map (\<lambda>i. log_probs ! b ! i)
             [rules_timestamp_begin_id r..<rules_timestamp_end_id r + 1])
          > k_max k (map (\<lambda>i. log_probs ! b ! i) [0..<rules_timestamp_begin_id r])"
      unfolding sample_timestamp_dispatch_eq [OF assms(1)]
      by (rule should_sample_timestamp_ranges [OF assms(2) assms(3) len])
    then show ?thesis
      unfolding second_def disabled_ids_mass_check using m by simp
  qed
  have off_marked: "disabled_ids second b = {}" if "b \<notin> set marked" for b
    unfolding second_def disabled_ids_mass_check using that by simp
  have "marked \<noteq> [] \<longrightarrow>
      dt_logits (apply_timestamp_rules bld k r call dt) = masked
      \<and> (\<forall>c i. c < length (dt_logits dt) \<and> i < length (dt_logits dt ! c) \<longrightarrow>
             masked ! c ! i
               = (if (c, i) \<in> set first then k_disable_value k else dt_logits dt ! c ! i))
      \<and> (\<exists>second. dt_added (apply_timestamp_rules bld k r call dt) = first @ second
            \<and> (\<forall>b. b \<in> set marked \<and> rules_timestamp_end_id r < length (log_probs ! b) \<longrightarrow>
                   disabled_ids second b =
                     (if k_logsumexp k (map (\<lambda>i. log_probs ! b ! i)
                            [rules_timestamp_begin_id r..<rules_timestamp_end_id r + 1])
                         > k_max k (map (\<lambda>i. log_probs ! b ! i)
                             [0..<rules_timestamp_begin_id r])
                      then {0..<rules_timestamp_begin_id r} else {}))
            \<and> (\<forall>b. b \<notin> set marked \<longrightarrow> disabled_ids second b = {}))"
  proof
    assume ne: "marked \<noteq> []"
    have a: "dt_logits (apply_timestamp_rules bld k r call dt) = masked"
      and b: "dt_added (apply_timestamp_rules bld k r call dt) = first @ second"
      by (simp_all add: final [OF ne])
    from b on_marked off_marked
    have "\<exists>second. dt_added (apply_timestamp_rules bld k r call dt) = first @ second
            \<and> (\<forall>b. b \<in> set marked \<and> rules_timestamp_end_id r < length (log_probs ! b) \<longrightarrow>
                   disabled_ids second b =
                     (if k_logsumexp k (map (\<lambda>i. log_probs ! b ! i)
                            [rules_timestamp_begin_id r..<rules_timestamp_end_id r + 1])
                         > k_max k (map (\<lambda>i. log_probs ! b ! i)
                             [0..<rules_timestamp_begin_id r])
                      then {0..<rules_timestamp_begin_id r} else {}))
            \<and> (\<forall>b. b \<notin> set marked \<longrightarrow> disabled_ids second b = {})"
      by blast
    with a entries show "dt_logits (apply_timestamp_rules bld k r call dt) = masked
      \<and> (\<forall>c i. c < length (dt_logits dt) \<and> i < length (dt_logits dt ! c) \<longrightarrow>
             masked ! c ! i
               = (if (c, i) \<in> set first then k_disable_value k else dt_logits dt ! c ! i))
      \<and> (\<exists>second. dt_added (apply_timestamp_rules bld k r call dt) = first @ second
            \<and> (\<forall>b. b \<in> set marked \<and> rules_timestamp_end_id r < length (log_probs ! b) \<longrightarrow>
                   disabled_ids second b =
                     (if k_logsumexp k (map (\<lambda>i. log_probs ! b ! i)
                            [rules_timestamp_begin_id r..<rules_timestamp_end_id r + 1])
                         > k_max k (map (\<lambda>i. log_probs ! b ! i)
                             [0..<rules_timestamp_begin_id r])
                      then {0..<rules_timestamp_begin_id r} else {}))
            \<and> (\<forall>b. b \<notin> set marked \<longrightarrow> disabled_ids second b = {}))"
      by blast
  qed
  then show ?thesis
    unfolding Let_def fp masked_def [symmetric] log_probs_def [symmetric] .
qed

theorem timestamp_mass_check_witness:
  "\<exists>second.
     dt_added (apply_timestamp_rules toy_build toy_kernels
         (make_timestamp_rules toy_replica toy_options) toy_call_later
         \<lparr>dt_logits = call_logits toy_call_later, dt_added = []\<rparr>)
       = [(0, 6), (0, 7), (1, 6), (1, 7), (1, 8), (1, 9), (1, 10), (1, 7)] @ second
     \<and> disabled_ids second 0 = {0..<7} \<and> disabled_ids second 1 = {}"
proof -
  let ?R = "make_timestamp_rules toy_replica toy_options"
  let ?D = "\<lparr>dt_logits = call_logits toy_call_later, dt_added = []\<rparr>"
  let ?first = "[(0, 6), (0, 7), (1, 6), (1, 7), (1, 8), (1, 9), (1, 10), (1, 7 :: nat)] :: (nat \<times> nat) list"
  let ?lp = "k_log_softmax toy_kernels
    (mask_logits (k_disable_value toy_kernels) ?first (dt_logits ?D))"
  have dev: "tensor_device toy_build = CPU \<or> with_cuda toy_build"
    by (simp add: toy_build_def)
  have r1: "rules_timestamp_begin_id ?R \<le> rules_timestamp_end_id ?R"
    and r2: "rules_timestamp_end_id ?R + 1 < 2 ^ 64"
    by (simp_all add: toy_rules)
  have marked: "snd (first_pass ?R toy_call_later ?D) = [0]"
    unfolding toy_rules by code_simp
  have first: "dt_added (fst (first_pass ?R toy_call_later ?D)) = ?first"
    unfolding toy_rules by code_simp
  have lp: "?lp ! 0 = [1 / 8, 0, 0, 1 / 8, 1 / 4, 1 / 8, 0, 0, 1 / 4, 1 / 4, 1 / 8]"
    by code_simp
  have ne: "[0 :: nat] \<noteq> []" by simp
  from timestamp_mass_check [OF dev r1 r2, of toy_call_later ?D toy_kernels,
      unfolded Let_def marked first, rule_format, OF ne]
  obtain second where
    a: "dt_added (apply_timestamp_rules toy_build toy_kernels ?R toy_call_later ?D)
        = ?first @ second"
    and b: "\<forall>b. b \<in> set [0] \<and> rules_timestamp_end_id ?R < length (?lp ! b) \<longrightarrow>
        disabled_ids second b =
          (if k_logsumexp toy_kernels (map (\<lambda>i. ?lp ! b ! i)
                 [rules_timestamp_begin_id ?R..<rules_timestamp_end_id ?R + 1])
              > k_max toy_kernels (map (\<lambda>i. ?lp ! b ! i) [0..<rules_timestamp_begin_id ?R])
           then {0..<rules_timestamp_begin_id ?R} else {})"
    and c: "\<forall>b. b \<notin> set [0] \<longrightarrow> disabled_ids second b = {}"
    by blast
  have cond: "(0 :: nat) \<in> set [0] \<and> rules_timestamp_end_id ?R < length (?lp ! 0)"
    unfolding lp by (simp add: toy_rules)
  have more: "k_logsumexp toy_kernels (map (\<lambda>i. ?lp ! 0 ! i)
                 [rules_timestamp_begin_id ?R..<rules_timestamp_end_id ?R + 1])
      > k_max toy_kernels (map (\<lambda>i. ?lp ! 0 ! i) [0..<rules_timestamp_begin_id ?R])"
    unfolding lp by (simp add: toy_rules toy_kernels_def upt_rec)
  from b [rule_format, OF cond] more
  have zero: "disabled_ids second 0 = {0..<7}"
    by (simp add: toy_rules)
  from c have one: "disabled_ids second 1 = {}" by simp
  from a zero one show ?thesis by blast
qed

section \<open>detect_language: proofs\<close>

lemma mset_insert_by_prob: "mset (insert_by_prob a xs) = add_mset a (mset xs)"
  by (induction xs) simp_all

lemma mset_sort_by_prob: "mset (sort_by_prob xs) = mset xs"
  by (induction xs) (simp_all add: mset_insert_by_prob)

lemma set_insert_by_prob: "set (insert_by_prob a xs) = insert a (set xs)"
  by (induction xs) auto

lemma sorted_insert_by_prob:
  "sorted_wrt (\<lambda>a b. snd a \<ge> snd b) xs \<Longrightarrow>
   sorted_wrt (\<lambda>a b. snd a \<ge> snd b) (insert_by_prob a xs)"
  by (induction xs) (auto simp: set_insert_by_prob)

lemma sorted_sort_by_prob: "sorted_wrt (\<lambda>a b. snd a \<ge> snd b) (sort_by_prob xs)"
  by (induction xs) (simp_all add: sorted_insert_by_prob)

lemma language_rows_error:
  "language_rows replica lang_ids lang_probs is = Inl e \<Longrightarrow> e = Undefined_Behaviour"
  by (induction "is" arbitrary: e)
    (auto simp: language_row_def split: if_splits sum.splits)

lemma language_rows_ok:
  "\<forall>i\<in>set is. i < length lang_probs \<and> length lang_ids \<le> length (lang_probs ! i) \<Longrightarrow>
   language_rows replica lang_ids lang_probs is =
     Inr (map (\<lambda>i. sort_by_prob
                      (map (\<lambda>j. (replica_to_token replica (lang_ids ! j), lang_probs ! i ! j))
                           [0..<length lang_ids]))
              is)"
  by (induction "is") (simp_all add: language_row_def)

lemma gather_ok:
  assumes "length input = length ids"
    and "\<forall>i<length ids. \<forall>j\<in>set (ids ! i). j < length (input ! i)"
  shows "gather input ids = Inr (map (\<lambda>i. map (\<lambda>j. input ! i ! j) (ids ! i)) [0..<length ids])"
proof -
  have "map (\<lambda>(row, row_ids). map (\<lambda>j. row ! j) row_ids) (zip input ids)
      = map (\<lambda>i. map (\<lambda>j. input ! i ! j) (ids ! i)) [0..<length ids]"
    using assms(1) by (intro nth_equalityI) simp_all
  with assms show ?thesis by (simp add: gather_def)
qed

lemma detect_language_error:
  assumes "replica_is_multilingual replica"
    and "detect_language co k replica features = Inl e"
  shows "e = Undefined_Behaviour"
proof (cases "gather (co_decoder_step co 0 (replicate (length features) (replica_sot_id replica))
                (co_emplace_memory co (encode co features) (co_initial_state co)))
              (replicate (length features) (replica_lang_ids replica))")
  case (Inl e')
  then have "e' = Undefined_Behaviour"
    by (simp add: gather_def split: if_splits)
  with assms Inl show ?thesis
    by (simp add: detect_language_def Let_def)
next
  case (Inr gathered)
  with assms have "language_rows replica (replica_lang_ids replica) (k_softmax k gathered)
      [0..<length features] = Inl e"
    by (simp add: detect_language_def Let_def)
  then show ?thesis by (rule language_rows_error)
qed

text \<open>
  Claim C7. \<open>detect_language\<close> fails with a runtime error if and only if the model is
  not multilingual. On a multilingual model (whose language ids are vocabulary ids,
  with a decoder step and a softmax that keep the shapes) it returns one list per
  batch row; the list of row \<open>i\<close> holds exactly the pairs
  \<open>(to_token (lang_ids[j]), probs[i][j])\<close>, one per entry \<open>j\<close> of \<open>lang_ids\<close>, in an order
  of descending probability, where \<open>probs\<close> is the softmax of the \<open>lang_ids\<close> columns
  gathered from the logits of one decoder step (step 0) on \<open>sot_id\<close> replicated
  across the batch.
\<close>

theorem detect_language_sorted:
  "((\<exists>m. detect_language co k replica features = Inl (Runtime_Error m))
      \<longleftrightarrow> \<not> replica_is_multilingual replica)
   \<and> (replica_is_multilingual replica
        \<and> (\<forall>l\<in>set (replica_lang_ids replica). l < replica_vocabulary_size replica)
        \<and> decoder_step_shape co replica \<and> softmax_keeps_shape k \<longrightarrow>
       (let lang_ids = replica_lang_ids replica;
            logits = co_decoder_step co 0 (replicate (length features) (replica_sot_id replica))
                       (memory_state co features);
            probs = k_softmax k (map (\<lambda>row. map (\<lambda>l. row ! l) lang_ids) logits)
        in \<exists>results.
             detect_language co k replica features = Inr results
             \<and> length results = length features
             \<and> (\<forall>i<length features.
                   mset (results ! i)
                     = mset (map (\<lambda>j. (replica_to_token replica (lang_ids ! j), probs ! i ! j))
                               [0..<length lang_ids])
                   \<and> sorted_wrt (\<lambda>a b. snd a \<ge> snd b) (results ! i))))"
proof -
  have runtime: "(\<exists>m. detect_language co k replica features = Inl (Runtime_Error m))
      \<longleftrightarrow> \<not> replica_is_multilingual replica"
  proof (cases "replica_is_multilingual replica")
    case True
    then show ?thesis using detect_language_error [OF True] by fastforce
  next
    case False
    then show ?thesis by (simp add: detect_language_def)
  qed
  have sorted: "replica_is_multilingual replica
        \<and> (\<forall>l\<in>set (replica_lang_ids replica). l < replica_vocabulary_size replica)
        \<and> decoder_step_shape co replica \<and> softmax_keeps_shape k \<longrightarrow>
       (let lang_ids = replica_lang_ids replica;
            logits = co_decoder_step co 0 (replicate (length features) (replica_sot_id replica))
                       (memory_state co features);
            probs = k_softmax k (map (\<lambda>row. map (\<lambda>l. row ! l) lang_ids) logits)
        in \<exists>results.
             detect_language co k replica features = Inr results
             \<and> length results = length features
             \<and> (\<forall>i<length features.
                   mset (results ! i)
                     = mset (map (\<lambda>j. (replica_to_token replica (lang_ids ! j), probs ! i ! j))
                               [0..<length lang_ids])
                   \<and> sorted_wrt (\<lambda>a b. snd a \<ge> snd b) (results ! i)))"
  proof
    assume h: "replica_is_multilingual replica
        \<and> (\<forall>l\<in>set (replica_lang_ids replica). l < replica_vocabulary_size replica)
        \<and> decoder_step_shape co replica \<and> softmax_keeps_shape k"
    define lang_ids where "lang_ids = replica_lang_ids replica"
    define n where "n = length features"
    define logits where "logits =
      co_decoder_step co 0 (replicate n (replica_sot_id replica)) (memory_state co features)"
    define gathered where "gathered = map (\<lambda>row. map (\<lambda>l. row ! l) lang_ids) logits"
    define probs where "probs = k_softmax k gathered"
    from h have multi: "replica_is_multilingual replica"
      and ids: "\<forall>l\<in>set lang_ids. l < replica_vocabulary_size replica"
      and dshape: "decoder_step_shape co replica" and sshape: "softmax_keeps_shape k"
      by (simp_all add: lang_ids_def)
    from dshape have rows: "length logits = n"
      and cols: "\<forall>i<n. length (logits ! i) = replica_vocabulary_size replica"
      unfolding decoder_step_shape_def logits_def by simp_all
    have g: "gather logits (replicate n lang_ids) = Inr gathered"
    proof -
      have "gather logits (replicate n lang_ids)
          = Inr (map (\<lambda>i. map (\<lambda>j. logits ! i ! j) (replicate n lang_ids ! i))
                   [0..<length (replicate n lang_ids)])"
        using rows cols ids by (intro gather_ok) simp_all
      also have "map (\<lambda>i. map (\<lambda>j. logits ! i ! j) (replicate n lang_ids ! i))
                   [0..<length (replicate n lang_ids)] = gathered"
        unfolding gathered_def using rows by (intro nth_equalityI) simp_all
      finally show ?thesis .
    qed
    have glen: "length gathered = n" and gcols: "\<forall>i<n. length (gathered ! i) = length lang_ids"
      unfolding gathered_def using rows by simp_all
    from sshape glen gcols have plen: "length probs = n"
      and pcols: "\<forall>i<n. length (probs ! i) = length lang_ids"
      unfolding softmax_keeps_shape_def probs_def by simp_all
    have "\<forall>i\<in>set [0..<n]. i < length probs \<and> length lang_ids \<le> length (probs ! i)"
      using plen pcols by simp
    from language_rows_ok [OF this, of replica]
    have rows_ok: "language_rows replica lang_ids probs [0..<n] =
        Inr (map (\<lambda>i. sort_by_prob
                         (map (\<lambda>j. (replica_to_token replica (lang_ids ! j), probs ! i ! j))
                              [0..<length lang_ids]))
                 [0..<n])" .
    have res: "detect_language co k replica features =
        Inr (map (\<lambda>i. sort_by_prob
                         (map (\<lambda>j. (replica_to_token replica (lang_ids ! j), probs ! i ! j))
                              [0..<length lang_ids]))
                 [0..<n])"
      using multi g rows_ok
      unfolding detect_language_def Let_def logits_def memory_state_def probs_def
        lang_ids_def n_def
      by simp
    have "\<exists>results.
             detect_language co k replica features = Inr results
             \<and> length results = n
             \<and> (\<forall>i<n.
                   mset (results ! i)
                     = mset (map (\<lambda>j. (replica_to_token replica (lang_ids ! j), probs ! i ! j))
                               [0..<length lang_ids])
                   \<and> sorted_wrt (\<lambda>a b. snd a \<ge> snd b) (results ! i))"
      unfolding res by (simp add: mset_sort_by_prob sorted_sort_by_prob)
    then show "let lang_ids = replica_lang_ids replica;
            logits = co_decoder_step co 0 (replicate (length features) (replica_sot_id replica))
                       (memory_state co features);
            probs = k_softmax k (map (\<lambda>row. map (\<lambda>l. row ! l) lang_ids) logits)
        in \<exists>results.
             detect_language co k replica features = Inr results
             \<and> length results = length features
             \<and> (\<forall>i<length features.
                   mset (results ! i)
                     = mset (map (\<lambda>j. (replica_to_token replica (lang_ids ! j), probs ! i ! j))
                               [0..<length lang_ids])
                   \<and> sorted_wrt (\<lambda>a b. snd a \<ge> snd b) (results ! i))"
      unfolding Let_def probs_def gathered_def logits_def lang_ids_def n_def .
  qed
  from runtime sorted show ?thesis by (rule conjI)
qed

lemma toy_shapes:
  "decoder_step_shape toy_collaborators toy_replica \<and> softmax_keeps_shape toy_kernels"
  by (simp add: decoder_step_shape_def softmax_keeps_shape_def toy_collaborators_def
      toy_kernels_def toy_replica_def toy_row_def)

theorem detect_language_sorted_witness:
  "(\<exists>results.
      detect_language toy_collaborators toy_kernels toy_replica [0, 0] = Inr results
      \<and> length results = 2
      \<and> mset (results ! 0) = {#(''<|en|>'', 1 / 8), (''<|fr|>'', 1 / 4)#}
      \<and> sorted_wrt (\<lambda>a b. snd a \<ge> snd b) (results ! 0))
   \<and> \<not> (\<exists>m. detect_language toy_collaborators toy_kernels toy_replica [0, 0]
             = Inl (Runtime_Error m))"
proof -
  note inst = detect_language_sorted [of toy_collaborators toy_kernels toy_replica "[0, 0]"]
  have multi: "replica_is_multilingual toy_replica"
    by (simp add: toy_replica_def)
  have ids: "\<forall>l\<in>set (replica_lang_ids toy_replica). l < replica_vocabulary_size toy_replica"
    by (simp add: toy_replica_def)
  from inst [THEN conjunct2, rule_format, unfolded Let_def]
    multi ids toy_shapes
  obtain results where
    res: "detect_language toy_collaborators toy_kernels toy_replica [0, 0] = Inr results"
    and len: "length results = length [0 :: nat, 0]"
    and rows: "\<forall>i<length [0 :: nat, 0].
        mset (results ! i)
          = mset (map (\<lambda>j. (replica_to_token toy_replica (replica_lang_ids toy_replica ! j),
                              k_softmax toy_kernels
                                (map (\<lambda>row. map (\<lambda>l. row ! l) (replica_lang_ids toy_replica))
                                   (co_decoder_step toy_collaborators 0
                                      (replicate (length [0 :: nat, 0]) (replica_sot_id toy_replica))
                                      (memory_state toy_collaborators [0, 0]))) ! i ! j))
                    [0..<length (replica_lang_ids toy_replica)])
        \<and> sorted_wrt (\<lambda>a b. snd a \<ge> snd b) (results ! i)"
    by blast
  from rows have "mset (results ! 0)
          = mset (map (\<lambda>j. (replica_to_token toy_replica (replica_lang_ids toy_replica ! j),
                              k_softmax toy_kernels
                                (map (\<lambda>row. map (\<lambda>l. row ! l) (replica_lang_ids toy_replica))
                                   (co_decoder_step toy_collaborators 0
                                      (replicate (length [0 :: nat, 0]) (replica_sot_id toy_replica))
                                      (memory_state toy_collaborators [0, 0]))) ! 0 ! j))
                    [0..<length (replica_lang_ids toy_replica)])"
    and sorted: "sorted_wrt (\<lambda>a b. snd a \<ge> snd b) (results ! 0)"
    by simp_all
  then have m: "mset (results ! 0) = {#(''<|en|>'', 1 / 8), (''<|fr|>'', 1 / 4)#}"
    by (simp add: toy_replica_def toy_kernels_def toy_collaborators_def toy_row_def
        upt_rec numeral_2_eq_2)
  from res len m sorted
  have one: "\<exists>results.
      detect_language toy_collaborators toy_kernels toy_replica [0, 0] = Inr results
      \<and> length results = 2
      \<and> mset (results ! 0) = {#(''<|en|>'', 1 / 8), (''<|fr|>'', 1 / 4)#}
      \<and> sorted_wrt (\<lambda>a b. snd a \<ge> snd b) (results ! 0)"
    by simp
  from inst [THEN conjunct1] multi
  have two: "\<not> (\<exists>m. detect_language toy_collaborators toy_kernels toy_replica [0, 0]
             = Inl (Runtime_Error m))"
    by simp
  from one two show ?thesis by (rule conjI)
qed

section \<open>Packing the results: proofs\<close>

lemma final_results_nth:
  "final_results replica options no_speech_probs i0 results = Inr finals \<Longrightarrow>
   length finals = length results
   \<and> (\<forall>j<length results.
         final_result replica options no_speech_probs (i0 + j) (results ! j) = Inr (finals ! j))"
proof (induction results arbitrary: i0 finals)
  case Nil
  then show ?case by simp
next
  case (Cons result results)
  from Cons.prems obtain f fs
    where f: "final_result replica options no_speech_probs i0 result = Inr f"
      and fs: "final_results replica options no_speech_probs (i0 + 1) results = Inr fs"
      and finals: "finals = f # fs"
    by (auto split: sum.splits)
  from Cons.IH [OF fs] have len: "length fs = length results"
    and rest: "\<forall>j<length results.
        final_result replica options no_speech_probs (i0 + 1 + j) (results ! j) = Inr (fs ! j)"
    by simp_all
  have "final_result replica options no_speech_probs (i0 + j) ((result # results) ! j)
      = Inr (finals ! j)" if "j < length (result # results)" for j
  proof (cases j)
    case 0
    with f finals show ?thesis by simp
  next
    case (Suc j')
    with that rest finals show ?thesis by simp
  qed
  with len finals show ?case by simp
qed

lemma final_result_Inr:
  assumes "final_result replica options no_speech_probs i result = Inr final"
  shows "final =
      \<lparr>gen_sequences = map (map (replica_to_token replica)) (res_hypotheses result),
       gen_sequences_ids = res_hypotheses result,
       gen_scores = res_scores result,
       gen_token_scores = res_token_scores result ! 0,
       gen_attention = res_attention result,
       gen_no_speech_prob = (if opt_return_no_speech_prob options then no_speech_probs ! i else 0)\<rparr>"
    and "res_token_scores result \<noteq> []"
    and "opt_return_no_speech_prob options \<longrightarrow> i < length no_speech_probs"
  using assms by (auto simp: final_result_def split: if_splits)






lemma toy_decoding_options:
  "dec_num_hypotheses (make_decoding_options toy_replica options start_step processors)
     = opt_num_hypotheses options
   \<and> dec_beam_size (make_decoding_options toy_replica options start_step processors)
       = opt_beam_size options
   \<and> dec_return_scores (make_decoding_options toy_replica options start_step processors)
       = opt_return_scores options
   \<and> dec_max_length (make_decoding_options toy_replica options start_step processors)
       = min (int (opt_max_length options) div 2) (int (opt_max_length options) - start_step)"
  by (simp add: make_decoding_options_def Let_def)

lemma toy_decode:
  "co_decode toy_collaborators state start_tokens end_id decoding_options
     = (map (\<lambda>t. toy_decoded decoding_options) start_tokens,
        toy_calls start_tokens decoding_options)"
  by (simp add: toy_collaborators_def)









section \<open>No-speech probability: proofs\<close>

lemma beam_index_bound:
  fixes i B n :: nat
  assumes "i < B" and "B \<le> n"
  shows "i * (n div B) < n"
proof -
  from assms have "0 < B" by simp
  with assms(2) have d: "0 < n div B" by (simp add: div_greater_zero_iff)
  from assms(1) have "Suc i \<le> B" by simp
  then have "Suc i * (n div B) \<le> B * (n div B)" by (rule mult_le_mono1)
  also have "\<dots> \<le> n" by simp
  finally have "i * (n div B) + n div B \<le> n" by simp
  with d show ?thesis by linarith
qed

lemma get_no_speech_probs_apply_later:
  "call_step call \<noteq> 0 \<Longrightarrow>
   get_no_speech_probs_apply k no_speech_id call member = Inr (call_logits call, member)"
  by (simp add: get_no_speech_probs_apply_def)

lemma run_get_no_speech_probs_later:
  "\<forall>c\<in>set calls. call_step c \<noteq> 0 \<Longrightarrow>
   run_get_no_speech_probs k no_speech_id calls member = Inr member"
  by (induction calls) (simp_all add: get_no_speech_probs_apply_later)

lemma get_no_speech_probs_apply_first_call:
  assumes step: "call_step call = 0"
    and rows: "\<forall>row\<in>set (k_softmax k (call_logits call)). no_speech_id < length row"
    and keeps: "softmax_keeps_shape k"
    and batch: "length (call_batch_offset call) = B" "0 < B" "B \<le> length (call_logits call)"
  shows "get_no_speech_probs_apply k no_speech_id call member =
     Inr (call_logits call,
          member @ map (\<lambda>i. k_softmax k (call_logits call)
                               ! (i * (length (call_logits call) div B)) ! no_speech_id)
                     [0..<B])"
proof -
  let ?sm = "k_softmax k (call_logits call)"
  let ?beam = "length (call_logits call) div B"
  from keeps have len: "length ?sm = length (call_logits call)"
    by (simp add: softmax_keeps_shape_def)
  have probs: "get_no_speech_probs_from_logits k (call_logits call) no_speech_id
      = Inr (map (\<lambda>row. row ! no_speech_id) ?sm)"
    using rows by (simp add: get_no_speech_probs_from_logits_def)
  have inside: "\<forall>i<B. i * ?beam < length (map (\<lambda>row. row ! no_speech_id) ?sm)"
    using beam_index_bound [OF _ batch(3)] len by simp
  have "map (\<lambda>i. map (\<lambda>row. row ! no_speech_id) ?sm ! (i * ?beam)) [0..<B]
      = map (\<lambda>i. ?sm ! (i * ?beam) ! no_speech_id) [0..<B]"
    using inside by simp
  then show ?thesis
    using step probs inside batch(1,2)
    by (simp add: get_no_speech_probs_apply_def Let_def)
qed

lemma drop_first:
  "n < length xs \<Longrightarrow> drop n xs ! 0 = xs ! n"
  by simp

text \<open>
  What the claim says holds of every call whose decoding loop runs. Take a validated
  batch that is not empty, with \<open>return_no_speech_prob\<close> set, and let the loop, when SOT
  is the last prompt token, make its first call of the processors at step 0 on logits
  that hold at least one row per batch row and span the vocabulary. Then the no-speech
  probabilities that \<open>generate\<close> packs hold one value in \<open>[0, 1]\<close> per batch row. When SOT
  is not the last prompt token the value of row \<open>i\<close> is read eagerly, from the logits
  computed from the hidden outputs of the prefill at column \<open>sot_index\<close>, and no
  processor is installed for it. When SOT is the last prompt token the processor is
  installed at the head of the list and declares \<open>apply_first\<close>; the value of row \<open>i\<close>
  is what its call at step 0 captures from row \<open>i * beam_size\<close>, and that call leaves
  the logits as they are. Every result that \<open>generate\<close> returns carries the value of
  its row.
\<close>

lemma no_speech_probs_of_generate:
  assumes chk: "check_prompts prompts (replica_sot_id replica)
                  (replica_no_timestamps_id replica) (0, 0) = Inr (si, pl)"
    and ne: "prompts \<noteq> []"
    and ord: "replica_sot_id replica \<le> replica_no_timestamps_id replica"
    and req: "opt_return_no_speech_prob options"
    and span: "logits_span_vocabulary co k replica"
    and per_row: "logits_per_row co"
    and unit_range: "softmax_unit_range k"
    and keeps: "softmax_keeps_shape k"
    and su: "generate_setup co k replica features prompts options
               = Inr (state, start_tokens, decoding_options, eager, deferred)"
    and dec: "co_decode co state start_tokens (replica_eot_id replica) decoding_options
               = (results, calls)"
    and loop: "si = pl - 1 \<longrightarrow>
        (\<exists>call rest.
            calls = call # rest \<and> call_step call = 0 \<and> (\<forall>c\<in>set rest. call_step c \<noteq> 0)
            \<and> length (call_batch_offset call) = length prompts
            \<and> length prompts \<le> length (call_logits call)
            \<and> (\<forall>row\<in>set (k_softmax k (call_logits call)).
                  replica_no_speech_id replica < length row))"
  shows "\<exists>no_speech_probs.
           generate co k replica features prompts options
             = final_results replica options no_speech_probs 0 results
           \<and> length no_speech_probs = length prompts
           \<and> (\<forall>i<length prompts.
                 prompts ! i ! si = replica_sot_id replica
                 \<and> 0 \<le> no_speech_probs ! i \<and> no_speech_probs ! i \<le> 1)
           \<and> (if si = pl - 1 then
                 deferred
                 \<and> dec_logits_processors decoding_options \<noteq> []
                 \<and> hd (dec_logits_processors decoding_options)
                     = GetNoSpeechProbs (replica_no_speech_id replica)
                 \<and> get_no_speech_probs_apply_first
                 \<and> (\<exists>call rest.
                       calls = call # rest \<and> call_step call = 0
                       \<and> (\<forall>member. \<exists>member'.
                             get_no_speech_probs_apply k (replica_no_speech_id replica) call member
                               = Inr (call_logits call, member'))
                       \<and> (\<forall>i<length prompts.
                             start_tokens ! i ! 0 = replica_sot_id replica
                             \<and> no_speech_probs ! i
                                 = k_softmax k (call_logits call)
                                     ! (i * (length (call_logits call) div length prompts))
                                     ! replica_no_speech_id replica))
               else
                 \<not> deferred
                 \<and> GetNoSpeechProbs (replica_no_speech_id replica)
                     \<notin> set (dec_logits_processors decoding_options)
                 \<and> (\<forall>i<length prompts.
                       no_speech_probs ! i
                         = k_softmax k (sot_logits co features prompts si pl) ! i
                             ! replica_no_speech_id replica))
           \<and> (\<forall>finals. generate co k replica features prompts options = Inr finals \<longrightarrow>
                 (\<forall>i<length finals. gen_no_speech_prob (finals ! i) = no_speech_probs ! i))"
proof -
  let ?nsid = "replica_no_speech_id replica"
  let ?n = "length prompts"
  have each: "is_sot_index p (replica_sot_id replica) si \<and> si < pl \<and> pl \<le> length p"
    if "p \<in> set prompts" for p
    using validated_batch [OF chk ne that] sot_before_prompt_length ord
    by blast
  from ne obtain p0 where p0: "p0 \<in> set prompts" by (cases prompts) auto
  from each [OF this] have pos: "0 < pl" by simp
  have sot_at: "prompts ! i ! si = replica_sot_id replica" if "i < ?n" for i
    using each [of "prompts ! i"] that by (simp add: is_sot_index_def)
  note validated = generate_setup_validated [OF chk ne ord span, of features options]
  have "Inr (state, start_tokens, decoding_options, eager, deferred)
      = (Inr (if pl = 1 then memory_state co features
          else fst (co_forward_prompt co (make_sequence_inputs (map (take (pl - 1)) prompts))
                      (memory_state co features)),
          if pl = 1 then prompts else map (drop (pl - 1)) prompts,
          make_decoding_options replica options (if pl = 1 then 0 else int (pl - 1))
            ((if opt_return_no_speech_prob options \<and> si = pl - 1
              then [GetNoSpeechProbs (replica_no_speech_id replica)] else [])
             @ (if prompts ! 0 ! (pl - 1) \<noteq> replica_no_timestamps_id replica
                then [ApplyTimestampRules (make_timestamp_rules replica options)] else [])),
          if pl \<noteq> 1 \<and> opt_return_no_speech_prob options \<and> si \<noteq> pl - 1
          then map (\<lambda>row. row ! replica_no_speech_id replica)
                 (k_softmax k (co_compute_logits_for_steps co
                    (snd (co_forward_prompt co (make_sequence_inputs (map (take (pl - 1)) prompts))
                            (memory_state co features)))
                    (replicate (length prompts) si)))
          else [],
          opt_return_no_speech_prob options \<and> si = pl - 1)
        :: error + _)"
    using su [symmetric] validated by (rule trans)
  then have start: "start_tokens = (if pl = 1 then prompts else map (drop (pl - 1)) prompts)"
    and opts: "decoding_options =
      make_decoding_options replica options (if pl = 1 then 0 else int (pl - 1))
        ((if opt_return_no_speech_prob options \<and> si = pl - 1
          then [GetNoSpeechProbs (replica_no_speech_id replica)] else [])
         @ (if prompts ! 0 ! (pl - 1) \<noteq> replica_no_timestamps_id replica
            then [ApplyTimestampRules (make_timestamp_rules replica options)] else []))"
    and eager_eq: "eager =
      (if pl \<noteq> 1 \<and> opt_return_no_speech_prob options \<and> si \<noteq> pl - 1
       then map (\<lambda>row. row ! replica_no_speech_id replica)
              (k_softmax k (co_compute_logits_for_steps co
                 (snd (co_forward_prompt co (make_sequence_inputs (map (take (pl - 1)) prompts))
                         (memory_state co features)))
                 (replicate (length prompts) si)))
       else [])"
    and deferred_eq: "deferred \<longleftrightarrow> opt_return_no_speech_prob options \<and> si = pl - 1"
    by (simp_all only: sum.inject prod.inject)
  have procs: "dec_logits_processors decoding_options
      = (if si = pl - 1 then [GetNoSpeechProbs ?nsid] else [])
        @ (if prompts ! 0 ! (pl - 1) \<noteq> replica_no_timestamps_id replica
           then [ApplyTimestampRules (make_timestamp_rules replica options)] else [])"
    unfolding opts processors_of_setup using req by simp
  have eager: "eager = (if pl \<noteq> 1 \<and> si \<noteq> pl - 1
      then map (\<lambda>row. row ! ?nsid) (k_softmax k (sot_logits co features prompts si pl))
      else [])"
    unfolding eager_eq sot_logits_def using req by simp
  have deferred: "deferred \<longleftrightarrow> si = pl - 1"
    unfolding deferred_eq using req by simp
  from ne have npos: "0 < ?n" by simp
  have eager_len: "length (k_softmax k (sot_logits co features prompts si pl)) = ?n"
    using per_row keeps by (simp add: softmax_keeps_shape_def logits_per_row_def sot_logits_def)
  have unit: "0 \<le> x ! a ! c \<and> x ! a ! c \<le> 1"
    if "x = k_softmax k y" "a < length x" "c < length (x ! a)" for x y a c
  proof -
    from that have "x ! a \<in> set (k_softmax k y)" and "x ! a ! c \<in> set (x ! a)" by simp_all
    with unit_range show ?thesis unfolding softmax_unit_range_def by blast
  qed
  have carried: "\<forall>finals.
      final_results replica options no_speech_probs 0 results = Inr finals \<longrightarrow>
        (\<forall>i<length finals. gen_no_speech_prob (finals ! i) = no_speech_probs ! i)"
    for no_speech_probs
  proof (intro allI impI)
    fix finals i
    assume fin: "final_results replica options no_speech_probs 0 results = Inr finals"
      and i: "i < length finals"
    from final_results_nth [OF fin] i
    have "final_result replica options no_speech_probs i (results ! i) = Inr (finals ! i)"
      by simp
    from final_result_Inr(1) [OF this] req
    show "gen_no_speech_prob (finals ! i) = no_speech_probs ! i" by simp
  qed
  show ?thesis
  proof (cases "si = pl - 1")
    case True
    with loop obtain call rest where
      calls: "calls = call # rest" and step0: "call_step call = 0"
      and later: "\<forall>c\<in>set rest. call_step c \<noteq> 0"
      and offs: "length (call_batch_offset call) = ?n"
      and rows_ge: "?n \<le> length (call_logits call)"
      and span0: "\<forall>row\<in>set (k_softmax k (call_logits call)). ?nsid < length row"
      by blast
    note first_call = get_no_speech_probs_apply_first_call
      [OF step0 span0 keeps offs npos rows_ge]
    define beam where "beam = length (call_logits call) div ?n"
    define no_speech_probs where "no_speech_probs =
      map (\<lambda>i. k_softmax k (call_logits call) ! (i * beam) ! ?nsid) [0..<?n]"
    have probs: "run_get_no_speech_probs k ?nsid calls [] = Inr no_speech_probs"
      unfolding calls no_speech_probs_def beam_def
      using first_call [of "[]"] run_get_no_speech_probs_later [OF later]
      by simp
    have gen: "generate co k replica features prompts options
        = final_results replica options no_speech_probs 0 results"
      using ne su dec probs deferred True by (simp add: generate_def)
    have nsp_len: "length no_speech_probs = ?n"
      unfolding no_speech_probs_def by simp
    have softmax_rows: "length (k_softmax k (call_logits call)) = length (call_logits call)"
      using keeps by (simp add: softmax_keeps_shape_def)
    have range: "0 \<le> no_speech_probs ! i \<and> no_speech_probs ! i \<le> 1" if "i < ?n" for i
    proof -
      have idx: "i * beam < length (k_softmax k (call_logits call))"
        unfolding beam_def softmax_rows using that rows_ge by (rule beam_index_bound)
      then have "k_softmax k (call_logits call) ! (i * beam)
          \<in> set (k_softmax k (call_logits call))"
        by simp
      with span0 have "?nsid < length (k_softmax k (call_logits call) ! (i * beam))" by blast
      from unit [OF refl idx this] that show ?thesis
        unfolding no_speech_probs_def by simp
    qed
    have st: "start_tokens ! i ! 0 = replica_sot_id replica" if "i < ?n" for i
    proof -
      from each [of "prompts ! i"] that pos have "pl - 1 < length (prompts ! i)" by auto
      then have "drop (pl - 1) (prompts ! i) ! 0 = prompts ! i ! (pl - 1)" by (rule drop_first)
      moreover have "start_tokens ! i = drop (pl - 1) (prompts ! i)"
        unfolding start using that by simp
      ultimately show ?thesis using sot_at [OF that] True by simp
    qed
    have vals: "no_speech_probs ! i
        = k_softmax k (call_logits call) ! (i * (length (call_logits call) div ?n)) ! ?nsid"
      if "i < ?n" for i
      using that unfolding no_speech_probs_def beam_def by simp
    have keep: "\<forall>member. \<exists>member'.
        get_no_speech_probs_apply k ?nsid call member = Inr (call_logits call, member')"
      using first_call by blast
    have common: "\<forall>i<?n. prompts ! i ! si = replica_sot_id replica
        \<and> 0 \<le> no_speech_probs ! i \<and> no_speech_probs ! i \<le> 1"
      using sot_at range by simp
    have path: "deferred
        \<and> dec_logits_processors decoding_options \<noteq> []
        \<and> hd (dec_logits_processors decoding_options) = GetNoSpeechProbs ?nsid
        \<and> get_no_speech_probs_apply_first
        \<and> (\<exists>call rest.
              calls = call # rest \<and> call_step call = 0
              \<and> (\<forall>member. \<exists>member'.
                    get_no_speech_probs_apply k ?nsid call member = Inr (call_logits call, member'))
              \<and> (\<forall>i<?n.
                    start_tokens ! i ! 0 = replica_sot_id replica
                    \<and> no_speech_probs ! i
                        = k_softmax k (call_logits call)
                            ! (i * (length (call_logits call) div ?n)) ! ?nsid))"
      using True deferred procs calls step0 keep st vals
      by (simp add: get_no_speech_probs_apply_first_def)
    from carried [of no_speech_probs]
    have last: "\<forall>finals. generate co k replica features prompts options = Inr finals \<longrightarrow>
        (\<forall>i<length finals. gen_no_speech_prob (finals ! i) = no_speech_probs ! i)"
      unfolding gen .
    from gen nsp_len common path last True show ?thesis
      by (intro exI [of _ no_speech_probs]) simp
  next
    case False
    define no_speech_probs where "no_speech_probs =
      map (\<lambda>row. row ! ?nsid) (k_softmax k (sot_logits co features prompts si pl))"
    from False each [OF p0] have "pl \<noteq> 1" by auto
    with False have probs: "eager = no_speech_probs"
      unfolding no_speech_probs_def eager by simp
    have gen: "generate co k replica features prompts options
        = final_results replica options no_speech_probs 0 results"
      using ne su dec probs deferred False by (simp add: generate_def)
    have nsp_len: "length no_speech_probs = ?n"
      unfolding no_speech_probs_def using eager_len by simp
    have vals: "no_speech_probs ! i
        = k_softmax k (sot_logits co features prompts si pl) ! i ! ?nsid" if "i < ?n" for i
      using that eager_len unfolding no_speech_probs_def by simp
    have range: "0 \<le> no_speech_probs ! i \<and> no_speech_probs ! i \<le> 1" if "i < ?n" for i
    proof -
      from that eager_len
      have idx: "i < length (k_softmax k (sot_logits co features prompts si pl))" by simp
      then have "k_softmax k (sot_logits co features prompts si pl) ! i
          \<in> set (k_softmax k (sot_logits co features prompts si pl))" by simp
      with span have "?nsid < length (k_softmax k (sot_logits co features prompts si pl) ! i)"
        unfolding logits_span_vocabulary_def sot_logits_def by blast
      from unit [OF refl idx this] vals [OF that] show ?thesis by simp
    qed
    have common: "\<forall>i<?n. prompts ! i ! si = replica_sot_id replica
        \<and> 0 \<le> no_speech_probs ! i \<and> no_speech_probs ! i \<le> 1"
      using sot_at range by simp
    have path: "\<not> deferred
        \<and> GetNoSpeechProbs ?nsid \<notin> set (dec_logits_processors decoding_options)
        \<and> (\<forall>i<?n. no_speech_probs ! i
              = k_softmax k (sot_logits co features prompts si pl) ! i ! ?nsid)"
      using False deferred procs vals by simp
    from carried [of no_speech_probs]
    have last: "\<forall>finals. generate co k replica features prompts options = Inr finals \<longrightarrow>
        (\<forall>i<length finals. gen_no_speech_prob (finals ! i) = no_speech_probs ! i)"
      unfolding gen .
    from gen nsp_len common path last False show ?thesis
      by (intro exI [of _ no_speech_probs]) simp
  qed
qed

lemma toy_start_check_prompts:
  "check_prompts [[2]] (replica_sot_id toy_replica)
     (replica_no_timestamps_id toy_replica) (0, 0) = Inr (0, 1)"
  by (simp add: toy_replica_def) code_simp

lemma toy_start_setup:
  "generate_setup toy_collaborators toy_kernels toy_replica [0] [[2]] options
     = Inr ([], [[2]],
            make_decoding_options toy_replica options 0
              ((if opt_return_no_speech_prob options then [GetNoSpeechProbs 5] else [])
               @ [ApplyTimestampRules (make_timestamp_rules toy_replica options)]),
            [], opt_return_no_speech_prob options)"
proof -
  have ne: "[[2]] \<noteq> ([] :: nat list list)" by simp
  have ord: "replica_sot_id toy_replica \<le> replica_no_timestamps_id toy_replica"
    by (simp add: toy_replica_def)
  show ?thesis
    unfolding generate_setup_validated [OF toy_start_check_prompts ne ord toy_span]
    by (simp add: memory_state_def encode_def toy_replica_def toy_collaborators_def)
qed

text \<open>
  On the small instance, a prompt that ends in SOT and the usual \<open>max_length\<close>: the loop
  runs, the processor captures the probability at step 0, and the result carries it.
\<close>

lemma toy_start_run:
  "generate toy_collaborators toy_kernels toy_replica [0] [[2]] toy_options
     = Inr [toy_single_result]"
proof -
  let ?opts = "make_decoding_options toy_replica toy_options 0
      [GetNoSpeechProbs 5, ApplyTimestampRules (make_timestamp_rules toy_replica toy_options)]"
  have req: "opt_return_no_speech_prob toy_options"
    by (simp add: toy_options_def)
  have len: "dec_max_length ?opts = 224" and beam: "dec_beam_size ?opts = 1"
    by (simp_all add: toy_decoding_options) (simp_all add: toy_options_def)
  have calls: "toy_calls [[2]] ?opts =
      map (\<lambda>step. \<lparr>call_step = int step, call_logits = [toy_row],
                    call_sequences = [take step [7, 0, 8]],
                    call_batch_offset = [0], call_sample_begin = (\<lambda>b. 0)\<rparr>) [0, 1, 2, 3]"
    unfolding toy_calls_def len beam by (simp add: upt_rec)
  have captured: "run_get_no_speech_probs toy_kernels (replica_no_speech_id toy_replica)
      (toy_calls [[2]] ?opts) [] = Inr [1 / 8]"
    unfolding calls
    by (simp add: get_no_speech_probs_apply_def get_no_speech_probs_from_logits_def
        toy_kernels_def toy_row_def toy_replica_def Let_def)
  have decoded: "toy_decoded ?opts
      = \<lparr>res_hypotheses = [[7, 0, 8]], res_scores = [- 1],
         res_token_scores = [[- 1 / 2, - 1 / 4, - 1 / 4]], res_attention = []\<rparr>"
    by (simp add: toy_decoded_def toy_decoding_options Let_def) (simp add: toy_options_def)
  have packed: "final_result toy_replica toy_options [1 / 8] 0 (toy_decoded ?opts)
      = Inr toy_single_result"
    unfolding decoded
    by (simp add: final_result_def toy_single_result_def toy_options_def toy_replica_def)
  show ?thesis
    by (simp add: generate_def toy_start_setup toy_decode req captured packed)
qed



end
